theory Spec2Isabelle
  imports Main "HOL-Library.Word" "HOL-Library.Monad_Syntax"
begin

unbundle bit_operations_syntax

section \<open>Machine integers of the Arduino (AVR) target\<close>

text \<open>
  The classes of \<^verbatim>\<open>change_limiter.h\<close> compute on \<^verbatim>\<open>int\<close>, \<^verbatim>\<open>unsigned int\<close> and
  \<^verbatim>\<open>unsigned long\<close>. On the AVR boards the library is written for these are 16, 16 and
  32 bits wide. Unsigned arithmetic wraps around, which is what the word types do.
  Signed overflow is undefined behaviour in C++: every signed operation of the model
  is computed on the mathematical integers and yields \<open>None\<close> when the result is not
  representable, so an execution of the model that returns \<open>Some\<close> is an execution of
  the code without signed overflow, and \<open>None\<close> stands for undefined behaviour.
\<close>

type_synonym cint = "16 word"
type_synonym cuint = "16 word"
type_synonym culong = "32 word"

definition int_ok :: "int \<Rightarrow> bool" where
  "int_ok i \<longleftrightarrow> - 32768 \<le> i \<and> i \<le> 32767"

definition to_cint :: "int \<Rightarrow> cint option" where
  "to_cint i = (if int_ok i then Some (word_of_int i) else None)"

definition sadd :: "cint \<Rightarrow> cint \<Rightarrow> cint option" where
  "sadd a b = to_cint (sint a + sint b)"

definition ssub :: "cint \<Rightarrow> cint \<Rightarrow> cint option" where
  "ssub a b = to_cint (sint a - sint b)"

definition smul :: "cint \<Rightarrow> cint \<Rightarrow> cint option" where
  "smul a b = to_cint (sint a * sint b)"

definition sneg :: "cint \<Rightarrow> cint option" where
  "sneg a = to_cint (- sint a)"

text \<open>
  \<^verbatim>\<open>abs\<close> is the macro of \<^verbatim>\<open>Arduino.h\<close>, \<^verbatim>\<open>((x)>0?(x):-(x))\<close>: the negation overflows
  at the most negative \<^verbatim>\<open>int\<close>.
\<close>

definition abs_c :: "cint \<Rightarrow> cint option" where
  "abs_c x = (if 0 < sint x then Some x else sneg x)"

text \<open>
  Modelled from the spec: \<^verbatim>\<open>sign\<close> is called by \<^verbatim>\<open>AbsChangeLimiter::output\<close> and is
  declared nowhere in the source file. The specification takes its results to be in
  \<open>{-1, 0, 1}\<close>: the sign of the argument, \<open>0\<close> at \<open>0\<close>.
\<close>

definition sign :: "cint \<Rightarrow> cint" where
  "sign x = (if 0 < sint x then 1 else if sint x < 0 then - 1 else 0)"

section \<open>The limiter state\<close>

text \<open>
  The data members of \<^verbatim>\<open>ChangeLimiter\<close>, which \<^verbatim>\<open>AbsChangeLimiter\<close> inherits. The
  source writes them with a trailing underscore (\<^verbatim>\<open>value_\<close>), which Isabelle keeps for
  internal names: the fields are named without it, as the accessors \<^verbatim>\<open>value()\<close> and
  \<^verbatim>\<open>enabled()\<close> that return them are.
\<close>

record limiter =
  enabled :: bool
  max_falling :: cint
  max_rising :: cint
  period :: cuint
  prev_time :: culong
  "value" :: cint
  target :: cint

section \<open>ChangeLimiter\<close>

definition begin_limiter :: "limiter \<Rightarrow> limiter" where
  "begin_limiter s =
     s\<lparr>enabled := True, max_falling := 0, max_rising := 0, period := 0,
       prev_time := 0, value := 0, target := 0\<rparr>"

definition set_limit :: "cint \<Rightarrow> cint \<Rightarrow> limiter \<Rightarrow> limiter option" where
  "set_limit maxFalling maxRising s = do {
     a \<leftarrow> abs_c maxFalling;
     f \<leftarrow> sneg a;
     r \<leftarrow> abs_c maxRising;
     Some (s\<lparr>max_falling := f, max_rising := r\<rparr>)
   }"

definition set_limit1 :: "cint \<Rightarrow> limiter \<Rightarrow> limiter option" where
  "set_limit1 maxChange s = set_limit maxChange maxChange s"

definition set_period :: "cuint \<Rightarrow> limiter \<Rightarrow> limiter" where
  "set_period p s = s\<lparr>period := p\<rparr>"

definition set_value :: "cint \<Rightarrow> limiter \<Rightarrow> limiter" where
  "set_value v s = s\<lparr>value := v\<rparr>"

definition set_enabled :: "bool \<Rightarrow> limiter \<Rightarrow> limiter" where
  "set_enabled e s = s\<lparr>enabled := e\<rparr>"

definition set_target :: "cint \<Rightarrow> limiter \<Rightarrow> limiter" where
  "set_target t s = s\<lparr>target := t\<rparr>"

definition target_reached :: "limiter \<Rightarrow> bool" where
  "target_reached s \<longleftrightarrow> value s = target s"

text \<open>
  The body of the period test of \<^verbatim>\<open>ChangeLimiter::output\<close>, after \<^verbatim>\<open>prev_time = ms\<close>:
  the step of the value towards the target.
\<close>

definition update_value :: "limiter \<Rightarrow> limiter option" where
  "update_value s = do {
     delta \<leftarrow> ssub (target s) (value s);
     if 0 < sint delta \<and> sint (max_rising s) < sint delta then do {
       v \<leftarrow> sadd (value s) (max_rising s);
       Some (s\<lparr>value := v\<rparr>)
     } else if sint delta < 0 \<and> sint delta < sint (max_falling s) then do {
       v \<leftarrow> sadd (value s) (max_falling s);
       Some (s\<lparr>value := v\<rparr>)
     } else do {
       v \<leftarrow> sadd (value s) delta;
       Some (s\<lparr>value := v\<rparr>)
     }
   }"

text \<open>
  \<^verbatim>\<open>output(unsigned long ms)\<close> returns the value and changes the object: the model,
  \<open>output_ms\<close>, returns the pair of the returned \<^verbatim>\<open>int\<close> and the new state. The difference
  \<^verbatim>\<open>ms - prev_time\<close> is unsigned and wraps around; \<^verbatim>\<open>period\<close> is converted to
  \<^verbatim>\<open>unsigned long\<close> for the comparison.
\<close>

definition output_ms :: "limiter \<Rightarrow> culong \<Rightarrow> (cint \<times> limiter) option" where
  "output_ms s ms = do {
     s' \<leftarrow>
       (if enabled s then
          let s1 = (if prev_time s = 0 then s\<lparr>prev_time := ms\<rparr> else s) in
          if period s1 = 0 \<or> ucast (period s1) \<le> ms - prev_time s1
          then update_value (s1\<lparr>prev_time := ms\<rparr>)
          else Some s1
        else Some (s\<lparr>value := target s\<rparr>));
     Some (value s', s')
   }"

section \<open>AbsChangeLimiter\<close>

definition abs_set_limit :: "cint \<Rightarrow> cint \<Rightarrow> limiter \<Rightarrow> limiter option" where
  "abs_set_limit maxFalling maxRising s = do {
     f \<leftarrow> abs_c maxFalling;
     r \<leftarrow> abs_c maxRising;
     Some (s\<lparr>max_falling := f, max_rising := r\<rparr>)
   }"

text \<open>
  \<^verbatim>\<open>differentSigns\<close>: the product of two signs is \<open>-1\<close>, \<open>0\<close> or \<open>1\<close> and cannot
  overflow, so it is the product of the words.
\<close>

definition differentSigns :: "limiter \<Rightarrow> bool" where
  "differentSigns s \<longleftrightarrow> sign (target s) * sign (value s) = - 1"

text \<open>\<^verbatim>\<open>int dir = sign(value) | sign(target)\<close>, a bitwise OR of two \<^verbatim>\<open>int\<close>s.\<close>

definition dir_of :: "limiter \<Rightarrow> cint" where
  "dir_of s = sign (value s) OR sign (target s)"

text \<open>The body of the period test of \<^verbatim>\<open>AbsChangeLimiter::output\<close>.\<close>

definition abs_update_value :: "limiter \<Rightarrow> limiter option" where
  "abs_update_value s =
     (if differentSigns s then do {
        a \<leftarrow> abs_c (value s);
        if sint a \<le> sint (max_falling s) then Some (s\<lparr>value := 0\<rparr>)
        else do {
          d \<leftarrow> smul (sign (value s)) (max_falling s);
          v \<leftarrow> ssub (value s) d;
          Some (s\<lparr>value := v\<rparr>)
        }
      } else do {
        at \<leftarrow> abs_c (target s);
        av \<leftarrow> abs_c (value s);
        delta \<leftarrow> ssub at av;
        let dir = dir_of s;
        if 0 < sint delta \<and> sint (max_rising s) < sint delta then do {
          d \<leftarrow> smul dir (max_rising s);
          v \<leftarrow> sadd (value s) d;
          Some (s\<lparr>value := v\<rparr>)
        } else do {
          falling \<leftarrow>
            (if sint delta < 0 then do {
               ad \<leftarrow> abs_c delta;
               Some (sint (max_falling s) < sint ad)
             } else Some False);
          if falling then do {
            d \<leftarrow> smul dir (max_falling s);
            v \<leftarrow> ssub (value s) d;
            Some (s\<lparr>value := v\<rparr>)
          } else do {
            d \<leftarrow> smul dir delta;
            v \<leftarrow> sadd (value s) d;
            Some (s\<lparr>value := v\<rparr>)
          }
        }
      })"

definition abs_output_ms :: "limiter \<Rightarrow> culong \<Rightarrow> (cint \<times> limiter) option" where
  "abs_output_ms s ms = do {
     s' \<leftarrow>
       (if enabled s then
          let s1 = (if prev_time s = 0 then s\<lparr>prev_time := ms\<rparr> else s) in
          if period s1 = 0 \<or> ucast (period s1) \<le> ms - prev_time s1
          then abs_update_value (s1\<lparr>prev_time := ms\<rparr>)
          else Some s1
        else Some (s\<lparr>value := target s\<rparr>));
     Some (value s', s')
   }"

section \<open>Sequences of calls\<close>

text \<open>
  A caller's loop: \<open>calls f s ts\<close> calls the output function \<open>f\<close> at the timestamps
  \<open>ts\<close> in turn and gives the returned values and the last state.
\<close>

fun calls :: "(limiter \<Rightarrow> culong \<Rightarrow> (cint \<times> limiter) option) \<Rightarrow> limiter \<Rightarrow> culong list
    \<Rightarrow> (cint list \<times> limiter) option" where
  "calls f s [] = Some ([], s)"
| "calls f s (t # ts) =
     (case f s t of
        None \<Rightarrow> None
      | Some (r, s') \<Rightarrow>
          (case calls f s' ts of
             None \<Rightarrow> None
           | Some (rs, s'') \<Rightarrow> Some (r # rs, s'')))"


section \<open>Callers and the bound of the specification\<close>

text \<open>
  The timestamps of a caller that calls with strictly increasing timestamps, each at
  least the period \<open>P\<close> after the one before, read as unsigned numbers.
\<close>

fun spaced :: "nat \<Rightarrow> culong list \<Rightarrow> bool" where
  "spaced P (t # u # ts) \<longleftrightarrow> unat t < unat u \<and> unat t + P \<le> unat u \<and> spaced P (u # ts)"
| "spaced P ts \<longleftrightarrow> True"

text \<open>
  The number of calls the specification gives as the bound for reaching the target,
  written from its words: the ceiling of \<open>|target - value|\<close> over the smaller of the two
  limits' magnitudes (for a positive divisor \<open>m\<close>, the ceiling of \<open>d / m\<close> is
  \<open>(d + m - 1) div m\<close>).
\<close>

definition spec_call_bound :: "limiter \<Rightarrow> nat" where
  "spec_call_bound s =
     (let d = \<bar>sint (target s) - sint (value s)\<bar>;
          m = min \<bar>sint (max_falling s)\<bar> (sint (max_rising s))
      in nat ((d + m - 1) div m))"

section \<open>Definitions used by the proofs\<close>

text \<open>
  None of these is part of the program: they describe what the program computes, on
  the mathematical integers and on natural numbers.
\<close>

text \<open>
  Whether a call by an enabled limiter at \<open>ms\<close> passes the period test, the first-call
  assignment to \<^verbatim>\<open>prev_time_\<close> taken into account.
\<close>

definition fires :: "limiter \<Rightarrow> culong \<Rightarrow> bool" where
  "fires s ms \<longleftrightarrow>
     period s = 0 \<or> ucast (period s) \<le> ms - (if prev_time s = 0 then ms else prev_time s)"

text \<open>The pair a call returns, from the state its update leaves.\<close>

definition ret :: "limiter option \<Rightarrow> (cint \<times> limiter) option" where
  "ret r = map_option (\<lambda>s'. (value s', s')) r"

text \<open>
  The elapsed time the period test compares, as a natural number: the difference of the
  timestamps modulo \<open>2 ^ 32\<close>, and \<open>0\<close> on a first call.
\<close>

definition elapsed :: "limiter \<Rightarrow> culong \<Rightarrow> nat" where
  "elapsed s ms =
     (if prev_time s = 0 then 0
      else if unat (prev_time s) \<le> unat ms then unat ms - unat (prev_time s)
      else unat ms + 4294967296 - unat (prev_time s))"

text \<open>The value \<open>update_value\<close> steps to, on the mathematical integers.\<close>

definition step_to :: "int \<Rightarrow> int \<Rightarrow> int \<Rightarrow> int \<Rightarrow> int" where
  "step_to mf mr v t =
     (if 0 < t - v \<and> mr < t - v then v + mr
      else if t - v < 0 \<and> t - v < mf then v + mf
      else t)"

text \<open>The value \<open>abs_update_value\<close> steps to, on the mathematical integers.\<close>

definition abs_step_to :: "int \<Rightarrow> int \<Rightarrow> int \<Rightarrow> int \<Rightarrow> int" where
  "abs_step_to mf mr v t =
     (if (0 < v \<and> t < 0) \<or> (v < 0 \<and> 0 < t) then
        (if \<bar>v\<bar> \<le> mf then 0 else v - sgn v * mf)
      else
        (let delta = \<bar>t\<bar> - \<bar>v\<bar>; dir = (if v \<noteq> 0 then sgn v else sgn t) in
         if 0 < delta \<and> mr < delta then v + dir * mr
         else if delta < 0 \<and> mf < \<bar>delta\<bar> then v - dir * mf
         else v + dir * delta))"

text \<open>
  A bound on the number of calls that can still pass without an update, for period \<open>P\<close>,
  last update time \<open>p\<close> and timestamps from \<open>lo\<close> on.
\<close>

definition waste :: "nat \<Rightarrow> nat \<Rightarrow> nat \<Rightarrow> nat" where
  "waste P p lo =
     (if P = 0 then 0
      else if p = 0 then (if lo = 0 then 2 else 1)
      else if p \<le> lo then (if p + P \<le> lo then 0 else 1)
      else (if P + p \<le> lo + 4294967296 then 1 else 2))"

text \<open>The same spacing, with a lower bound for the first timestamp.\<close>

fun spaced_from :: "nat \<Rightarrow> nat \<Rightarrow> culong list \<Rightarrow> bool" where
  "spaced_from P lo [] \<longleftrightarrow> True"
| "spaced_from P lo (t # ts) \<longleftrightarrow> lo \<le> unat t \<and> spaced_from P (unat t + max P 1) ts"

text \<open>
  The distance \<open>AbsChangeLimiter\<close> still has to go: across a change of sign the stop at
  zero can cost one step more, which the extra \<open>m - 1\<close> accounts for.
\<close>

definition abs_pot :: "int \<Rightarrow> int \<Rightarrow> int \<Rightarrow> int" where
  "abs_pot m v t = \<bar>t - v\<bar> + (if (0 < v \<and> t < 0) \<or> (v < 0 \<and> 0 < t) then m - 1 else 0)"

section \<open>Lemmas\<close>

subsection \<open>Machine integers\<close>

lemma int_ok_sint: "int_ok (sint (x :: cint))"
  using sint_ge [of x] sint_lt [of x] by (simp add: int_ok_def)

lemma sint_word_of_int_ok: "int_ok i \<Longrightarrow> sint (word_of_int i :: cint) = i"
  by (simp add: int_ok_def sint_sbintrunc' signed_take_bit_int_eq_self)

lemma to_cint_eq_Some: "to_cint i = Some w \<longleftrightarrow> int_ok i \<and> sint w = i"
  by (auto simp: to_cint_def sint_word_of_int_ok int_ok_sint)

lemma to_cint_eq_None: "to_cint i = None \<longleftrightarrow> \<not> int_ok i"
  by (simp add: to_cint_def)

lemma to_cint_sint: "to_cint (sint (w :: cint)) = Some w"
  by (simp add: to_cint_eq_Some int_ok_sint)

lemma cint_eq_iff: "(a :: cint) = b \<longleftrightarrow> sint a = sint b"
  by (auto intro: signed_word_eqI)

lemma sint_sign: "sint (sign x) = sgn (sint x)"
  by (simp add: sign_def)

lemma sign_cases: "sign x = 1 \<or> sign x = 0 \<or> sign x = - 1"
  by (simp add: sign_def)

lemma abs_c_eq_Some: "abs_c x = Some w \<longleftrightarrow> sint x \<noteq> - 32768 \<and> sint w = \<bar>sint x\<bar>"
  using int_ok_sint [of x]
  by (auto simp: abs_c_def sneg_def to_cint_eq_Some int_ok_def cint_eq_iff)

lemma differentSigns_iff:
  "differentSigns s \<longleftrightarrow> (0 < sint (value s) \<and> sint (target s) < 0) \<or> (sint (value s) < 0 \<and> 0 < sint (target s))"
  by (auto simp: differentSigns_def sign_def)

lemma sint_dir_of:
  "\<not> differentSigns s \<Longrightarrow> sint (dir_of s) = (if sint (value s) \<noteq> 0 then sgn (sint (value s)) else sgn (sint (target s)))"
  by (auto simp: differentSigns_iff dir_of_def sign_def)

subsection \<open>The period test\<close>

lemma output_ms_enabled:
  "enabled s \<Longrightarrow> output_ms s ms =
     (if fires s ms then ret (update_value (s\<lparr>prev_time := ms\<rparr>))
      else Some (value s, s\<lparr>prev_time := (if prev_time s = 0 then ms else prev_time s)\<rparr>))"
  by (cases "update_value (s\<lparr>prev_time := ms\<rparr>)") (auto simp: output_ms_def fires_def ret_def Let_def)

lemma abs_output_ms_enabled:
  "enabled s \<Longrightarrow> abs_output_ms s ms =
     (if fires s ms then ret (abs_update_value (s\<lparr>prev_time := ms\<rparr>))
      else Some (value s, s\<lparr>prev_time := (if prev_time s = 0 then ms else prev_time s)\<rparr>))"
  by (cases "abs_update_value (s\<lparr>prev_time := ms\<rparr>)") (auto simp: abs_output_ms_def fires_def ret_def Let_def)

lemma output_ms_disabled: "\<not> enabled s \<Longrightarrow> output_ms s ms = Some (target s, s\<lparr>value := target s\<rparr>)"
  by (simp add: output_ms_def)

lemma abs_output_ms_disabled: "\<not> enabled s \<Longrightarrow> abs_output_ms s ms = Some (target s, s\<lparr>value := target s\<rparr>)"
  by (simp add: abs_output_ms_def)

lemma unat_ucast_period: "unat (ucast (p :: cuint) :: culong) = unat p"
  by (simp add: unsigned_ucast_eq take_bit_nat_eq_self order_less_trans [OF unsigned_less])

lemma unat_elapsed:
  "unat (a - b :: culong) =
     (if unat b \<le> unat a then unat a - unat b else unat a + 4294967296 - unat b)"
  by (simp add: unat_sub_if')

lemma fires_iff: "fires s ms \<longleftrightarrow> period s = 0 \<or> unat (period s) \<le> elapsed s ms"
  by (simp add: fires_def elapsed_def word_le_nat_alt unat_ucast_period unat_elapsed)

lemma gated_iff:
  "ms - prev_time s < ucast (period s) \<longleftrightarrow>
     (if unat (prev_time s) \<le> unat ms then unat ms - unat (prev_time s)
      else unat ms + 4294967296 - unat (prev_time s)) < unat (period s)"
  by (simp add: word_less_nat_alt unat_ucast_period unat_elapsed)

lemma not_fires_gated:
  assumes "ms - prev_time s < ucast (period s)"
  shows "\<not> fires s ms"
  using assms unfolding gated_iff fires_iff elapsed_def
  by (auto simp: unat_eq_0 split: if_splits)

subsection \<open>The step of ChangeLimiter\<close>

lemma update_value_SomeD:
  assumes "update_value s = Some s'"
  shows "int_ok (sint (target s) - sint (value s))"
    and "sint (value s') = step_to (sint (max_falling s)) (sint (max_rising s)) (sint (value s)) (sint (target s))"
    and "s' = s\<lparr>value := value s'\<rparr>"
  using assms
  by (auto simp: update_value_def ssub_def sadd_def to_cint_eq_Some step_to_def
      split: Option.bind_splits if_splits)

lemma update_value_SomeI:
  assumes "int_ok (sint (target s) - sint (value s))"
    and "sint (max_falling s) \<le> 0" and "0 \<le> sint (max_rising s)"
  shows "\<exists>s'. update_value s = Some s'"
proof -
  obtain d where d: "ssub (target s) (value s) = Some d" "sint d = sint (target s) - sint (value s)"
    using assms(1) by (cases "ssub (target s) (value s)") (auto simp: ssub_def to_cint_eq_Some to_cint_eq_None)
  have v: "int_ok (sint (value s))" and t: "int_ok (sint (target s))"
    by (rule int_ok_sint)+
  show ?thesis
  proof (cases "0 < sint d \<and> sint (max_rising s) < sint d")
    case True
    then have "int_ok (sint (value s) + sint (max_rising s))"
      using d(2) v t assms(3) by (simp add: int_ok_def)
    then obtain w where "sadd (value s) (max_rising s) = Some w"
      by (cases "sadd (value s) (max_rising s)") (auto simp: sadd_def to_cint_eq_None)
    then show ?thesis using d True by (simp add: update_value_def)
  next
    case False
    note nr = this
    show ?thesis
    proof (cases "sint d < 0 \<and> sint d < sint (max_falling s)")
      case True
      then have "int_ok (sint (value s) + sint (max_falling s))"
        using d(2) v t assms(2) by (simp add: int_ok_def)
      then obtain w where "sadd (value s) (max_falling s) = Some w"
        by (cases "sadd (value s) (max_falling s)") (auto simp: sadd_def to_cint_eq_None)
      then show ?thesis using d True nr by (auto simp: update_value_def)
    next
      case False
      have "int_ok (sint (value s) + sint d)"
        using d(2) t by simp
      then obtain w where "sadd (value s) d = Some w"
        by (cases "sadd (value s) d") (auto simp: sadd_def to_cint_eq_None)
      then show ?thesis using d False nr by (auto simp: update_value_def)
    qed
  qed
qed

lemma step_to_between:
  assumes "mf \<le> 0" "0 \<le> mr"
  shows "(v \<le> t \<longrightarrow> v \<le> step_to mf mr v t \<and> step_to mf mr v t \<le> t) \<and>
         (t \<le> v \<longrightarrow> t \<le> step_to mf mr v t \<and> step_to mf mr v t \<le> v)"
  using assms by (auto simp: step_to_def)

lemma update_value_frame: "update_value s = Some s' \<Longrightarrow> \<exists>w. s' = s\<lparr>value := w\<rparr>"
  by (auto simp: update_value_def split: Option.bind_splits if_splits)

subsection \<open>The step of AbsChangeLimiter\<close>

lemma sint_0_iff: "sint (x :: cint) = 0 \<longleftrightarrow> x = 0"
  by (simp add: cint_eq_iff)

lemma sadd_eq_Some: "sadd a b = Some w \<longleftrightarrow> int_ok (sint a + sint b) \<and> sint w = sint a + sint b"
  by (simp add: sadd_def to_cint_eq_Some)

lemma ssub_eq_Some: "ssub a b = Some w \<longleftrightarrow> int_ok (sint a - sint b) \<and> sint w = sint a - sint b"
  by (simp add: ssub_def to_cint_eq_Some)

lemma smul_eq_Some: "smul a b = Some w \<longleftrightarrow> int_ok (sint a * sint b) \<and> sint w = sint a * sint b"
  by (simp add: smul_def to_cint_eq_Some)

lemma abs_rest_SomeD:
  assumes nd: "\<not> differentSigns s"
    and at: "abs_c (target s) = Some at" and av: "abs_c (value s) = Some av"
    and delta: "ssub at av = Some delta"
    and r: "(if 0 < sint delta \<and> sint (max_rising s) < sint delta then do {
          d \<leftarrow> smul (dir_of s) (max_rising s);
          v \<leftarrow> sadd (value s) d;
          Some (s\<lparr>value := v\<rparr>)
        } else do {
          falling \<leftarrow>
            (if sint delta < 0 then do {
               ad \<leftarrow> abs_c delta;
               Some (sint (max_falling s) < sint ad)
             } else Some False);
          if falling then do {
            d \<leftarrow> smul (dir_of s) (max_falling s);
            v \<leftarrow> ssub (value s) d;
            Some (s\<lparr>value := v\<rparr>)
          } else do {
            d \<leftarrow> smul (dir_of s) delta;
            v \<leftarrow> sadd (value s) d;
            Some (s\<lparr>value := v\<rparr>)
          }
        }) = Some s'"
  shows "sint (value s') = abs_step_to (sint (max_falling s)) (sint (max_rising s)) (sint (value s)) (sint (target s))"
proof -
  let ?v = "sint (value s)" and ?t = "sint (target s)"
  have d: "sint delta = \<bar>?t\<bar> - \<bar>?v\<bar>"
    using at av delta by (simp add: abs_c_eq_Some ssub_eq_Some)
  have dir: "sint (dir_of s) = (if ?v \<noteq> 0 then sgn ?v else sgn ?t)"
    using nd by (rule sint_dir_of)
  have ns: "\<not> ((0 < ?v \<and> ?t < 0) \<or> (?v < 0 \<and> 0 < ?t))"
    using nd by (simp add: differentSigns_iff)
  show ?thesis
  proof (cases "0 < sint delta \<and> sint (max_rising s) < sint delta")
    case True
    with r obtain dd w where "smul (dir_of s) (max_rising s) = Some dd"
      "sadd (value s) dd = Some w" "s' = s\<lparr>value := w\<rparr>"
      by (auto simp: bind_eq_Some_conv)
    then have "sint (value s') = ?v + sint (dir_of s) * sint (max_rising s)"
      by (simp add: smul_eq_Some sadd_eq_Some)
    then show ?thesis using True ns d dir
      by (auto simp add: abs_step_to_def Let_def)
  next
    case nr: False
    show ?thesis
    proof (cases "sint delta < 0")
      case True
      with r nr obtain ad where ad: "abs_c delta = Some ad"
        and r': "(if sint (max_falling s) < sint ad then do {
            d \<leftarrow> smul (dir_of s) (max_falling s);
            v \<leftarrow> ssub (value s) d;
            Some (s\<lparr>value := v\<rparr>)
          } else do {
            d \<leftarrow> smul (dir_of s) delta;
            v \<leftarrow> sadd (value s) d;
            Some (s\<lparr>value := v\<rparr>)
          }) = Some s'"
        by (auto simp: bind_eq_Some_conv)
      from ad have ad': "sint ad = \<bar>sint delta\<bar>" by (simp add: abs_c_eq_Some)
      show ?thesis
      proof (cases "sint (max_falling s) < sint ad")
        case True
        with r' obtain dd w where "smul (dir_of s) (max_falling s) = Some dd"
          "ssub (value s) dd = Some w" "s' = s\<lparr>value := w\<rparr>"
          by (auto simp: bind_eq_Some_conv)
        then have "sint (value s') = ?v - sint (dir_of s) * sint (max_falling s)"
          by (simp add: smul_eq_Some ssub_eq_Some)
        then show ?thesis using True nr \<open>sint delta < 0\<close> ns d dir ad'
          by (auto simp add: abs_step_to_def Let_def)
      next
        case False
        with r' obtain dd w where "smul (dir_of s) delta = Some dd"
          "sadd (value s) dd = Some w" "s' = s\<lparr>value := w\<rparr>"
          by (auto simp: bind_eq_Some_conv)
        then have "sint (value s') = ?v + sint (dir_of s) * sint delta"
          by (simp add: smul_eq_Some sadd_eq_Some)
        then show ?thesis using False nr \<open>sint delta < 0\<close> ns d dir ad'
          by (auto simp add: abs_step_to_def Let_def)
      qed
    next
      case False
      with r nr obtain dd w where "smul (dir_of s) delta = Some dd"
        "sadd (value s) dd = Some w" "s' = s\<lparr>value := w\<rparr>"
        by (auto simp: bind_eq_Some_conv)
      then have "sint (value s') = ?v + sint (dir_of s) * sint delta"
        by (simp add: smul_eq_Some sadd_eq_Some)
      then show ?thesis using False nr ns d dir
        by (auto simp add: abs_step_to_def Let_def)
    qed
  qed
qed

lemma abs_update_value_SomeD:
  assumes "abs_update_value s = Some s'"
  shows "sint (value s') = abs_step_to (sint (max_falling s)) (sint (max_rising s)) (sint (value s)) (sint (target s))"
    and "s' = s\<lparr>value := value s'\<rparr>"
proof -
  show "s' = s\<lparr>value := value s'\<rparr>"
    using assms
    by (auto simp: abs_update_value_def Let_def split: Option.bind_splits if_splits)
  show "sint (value s') = abs_step_to (sint (max_falling s)) (sint (max_rising s)) (sint (value s)) (sint (target s))"
  proof (cases "differentSigns s")
    case True
    then show ?thesis using assms
      by (auto simp: abs_update_value_def abs_step_to_def differentSigns_iff abs_c_eq_Some
          smul_def ssub_def to_cint_eq_Some sint_sign
          split: Option.bind_splits if_splits)
  next
    case False
    with assms obtain at av delta where
      "abs_c (target s) = Some at" "abs_c (value s) = Some av" "ssub at av = Some delta"
      and "(if 0 < sint delta \<and> sint (max_rising s) < sint delta then do {
          d \<leftarrow> smul (dir_of s) (max_rising s);
          v \<leftarrow> sadd (value s) d;
          Some (s\<lparr>value := v\<rparr>)
        } else do {
          falling \<leftarrow>
            (if sint delta < 0 then do {
               ad \<leftarrow> abs_c delta;
               Some (sint (max_falling s) < sint ad)
             } else Some False);
          if falling then do {
            d \<leftarrow> smul (dir_of s) (max_falling s);
            v \<leftarrow> ssub (value s) d;
            Some (s\<lparr>value := v\<rparr>)
          } else do {
            d \<leftarrow> smul (dir_of s) delta;
            v \<leftarrow> sadd (value s) d;
            Some (s\<lparr>value := v\<rparr>)
          }
        }) = Some s'"
      by (auto simp: abs_update_value_def Let_def bind_eq_Some_conv)
    with False show ?thesis by (rule abs_rest_SomeD)
  qed
qed

lemma to_cint_SomeI: "int_ok i \<Longrightarrow> \<exists>w. to_cint i = Some w \<and> sint w = i"
  by (simp add: to_cint_def sint_word_of_int_ok)

lemma sadd_SomeE:
  assumes "int_ok (sint a + sint b)"
  obtains w where "sadd a b = Some w" "sint w = sint a + sint b"
  using to_cint_SomeI [OF assms] by (auto simp: sadd_def)

lemma ssub_SomeE:
  assumes "int_ok (sint a - sint b)"
  obtains w where "ssub a b = Some w" "sint w = sint a - sint b"
  using to_cint_SomeI [OF assms] by (auto simp: ssub_def)

lemma smul_SomeE:
  assumes "int_ok (sint a * sint b)"
  obtains w where "smul a b = Some w" "sint w = sint a * sint b"
  using to_cint_SomeI [OF assms] by (auto simp: smul_def)

lemma abs_c_SomeE:
  assumes "sint x \<noteq> - 32768"
  obtains w where "abs_c x = Some w" "sint w = \<bar>sint x\<bar>"
proof (cases "0 < sint x")
  case True
  then show ?thesis using that [of x] by (simp add: abs_c_def)
next
  case False
  have "int_ok (- sint x)" using assms int_ok_sint [of x] by (simp add: int_ok_def)
  from to_cint_SomeI [OF this] False show ?thesis
    using that by (auto simp: abs_c_def sneg_def)
qed

lemma abs_update_value_SomeI:
  assumes v: "sint (value s) \<noteq> - 32768" and t: "sint (target s) \<noteq> - 32768"
    and mf: "0 \<le> sint (max_falling s)" and mr: "0 \<le> sint (max_rising s)"
  shows "\<exists>s'. abs_update_value s = Some s'"
proof -
  let ?v = "sint (value s)" and ?t = "sint (target s)"
  let ?mf = "sint (max_falling s)" and ?mr = "sint (max_rising s)"
  have okv: "int_ok ?v" and okt: "int_ok ?t" and okf: "int_ok ?mf" and okr: "int_ok ?mr"
    by (rule int_ok_sint)+
  obtain av where av: "abs_c (value s) = Some av" "sint av = \<bar>?v\<bar>"
    using v by (rule abs_c_SomeE)
  obtain at where at: "abs_c (target s) = Some at" "sint at = \<bar>?t\<bar>"
    using t by (rule abs_c_SomeE)
  show ?thesis
  proof (cases "differentSigns s")
    case True
    show ?thesis
    proof (cases "sint av \<le> ?mf")
      case True
      with \<open>differentSigns s\<close> av(1) show ?thesis by (simp add: abs_update_value_def Let_def)
    next
      case False
      have "int_ok (sint (sign (value s)) * ?mf)"
        using okf mf by (auto simp: sint_sign sgn_if int_ok_def)
      then obtain d where d: "smul (sign (value s)) (max_falling s) = Some d"
        "sint d = sint (sign (value s)) * ?mf" by (rule smul_SomeE)
      have "int_ok (?v - sint d)"
        using d(2) False av(2) okv mf by (auto simp: sint_sign sgn_if int_ok_def)
      then obtain w where w: "ssub (value s) d = Some w" "sint w = ?v - sint d" by (rule ssub_SomeE)
      from w(1) \<open>differentSigns s\<close> av(1) False d(1) show ?thesis by (simp add: abs_update_value_def Let_def)
    qed
  next
    case nd: False
    have dir: "sint (dir_of s) = (if ?v \<noteq> 0 then sgn ?v else sgn ?t)"
      using nd by (rule sint_dir_of)
    have ns: "\<not> ((0 < ?v \<and> ?t < 0) \<or> (?v < 0 \<and> 0 < ?t))"
      using nd by (simp add: differentSigns_iff)
    have "int_ok (sint at - sint av)"
      using at(2) av(2) okv okt v t by (auto simp: int_ok_def)
    then obtain delta where delta: "ssub at av = Some delta" "sint delta = sint at - sint av"
      by (rule ssub_SomeE)
    have d: "sint delta = \<bar>?t\<bar> - \<bar>?v\<bar>" using delta(2) at(2) av(2) by simp
    show ?thesis
    proof (cases "0 < sint delta \<and> ?mr < sint delta")
      case True
      have "int_ok (sint (dir_of s) * ?mr)"
        using okr mr dir by (auto simp: sgn_if int_ok_def)
      then obtain dd where dd: "smul (dir_of s) (max_rising s) = Some dd"
        "sint dd = sint (dir_of s) * ?mr" by (rule smul_SomeE)
      have "int_ok (?v + sint dd)"
        using dd(2) dir True d okv okt ns mr by (auto simp: sgn_if int_ok_def)
      then obtain w where w: "sadd (value s) dd = Some w" "sint w = ?v + sint dd" by (rule sadd_SomeE)
      from w(1) nd at(1) av(1) delta(1) True dd(1) show ?thesis by (simp add: abs_update_value_def Let_def)
    next
      case nr: False
      have okd: "int_ok (sint (dir_of s) * sint delta)"
        using dir d okv okt v t by (auto simp: sgn_if int_ok_def)
      then obtain de where de: "smul (dir_of s) delta = Some de"
        "sint de = sint (dir_of s) * sint delta" by (rule smul_SomeE)
      have "int_ok (?v + sint de)"
        using de(2) dir d okv okt v t ns by (auto simp: sgn_if int_ok_def)
      then obtain we where we: "sadd (value s) de = Some we" "sint we = ?v + sint de"
        by (rule sadd_SomeE)
      show ?thesis
      proof (cases "sint delta < 0")
        case True
        have "sint delta \<noteq> - 32768" using d okv okt v t by (auto simp: int_ok_def)
        then obtain ad where ad: "abs_c delta = Some ad" "sint ad = \<bar>sint delta\<bar>"
          by (rule abs_c_SomeE)
        show ?thesis
        proof (cases "?mf < sint ad")
          case True
          have "int_ok (sint (dir_of s) * ?mf)"
            using okf mf dir by (auto simp: sgn_if int_ok_def)
          then obtain dd where dd: "smul (dir_of s) (max_falling s) = Some dd"
            "sint dd = sint (dir_of s) * ?mf" by (rule smul_SomeE)
          have "int_ok (?v - sint dd)"
            using dd(2) dir True ad(2) d okv okt ns mf \<open>sint delta < 0\<close>
            by (auto simp: sgn_if int_ok_def)
          then obtain w where w: "ssub (value s) dd = Some w" "sint w = ?v - sint dd"
            by (rule ssub_SomeE)
          from w(1) nd at(1) av(1) delta(1) nr \<open>sint delta < 0\<close> ad(1) True dd(1) show ?thesis
            by (auto simp add: abs_update_value_def Let_def)
        next
          case False
          with nd at(1) av(1) delta(1) nr \<open>sint delta < 0\<close> ad(1) de(1) we(1) show ?thesis
            by (auto simp add: abs_update_value_def Let_def)
        qed
      next
        case False
        with nd at(1) av(1) delta(1) nr de(1) we(1) show ?thesis
          by (auto simp add: abs_update_value_def Let_def)
      qed
    qed
  qed
qed

subsection \<open>Calls that pass without an update\<close>

lemma waste_le_2: "waste P p lo \<le> 2"
  by (simp add: waste_def)

lemma unat_culong_less: "unat (x :: culong) < 4294967296"
  using unsigned_less [of x, where 'a = nat] by simp

lemma waste_fire:
  assumes "fires s ms" "lo \<le> unat ms"
  shows "waste (unat (period s)) (unat ms) (unat ms + max (unat (period s)) 1)
           \<le> waste (unat (period s)) (unat (prev_time s)) lo"
  using assms unat_culong_less [of ms] unat_culong_less [of "prev_time s"]
  unfolding fires_iff elapsed_def waste_def
  by (auto simp: unat_eq_0 split: if_splits)

lemma waste_gated:
  assumes "\<not> fires s ms" "lo \<le> unat ms"
  shows "waste (unat (period s)) (unat (if prev_time s = 0 then ms else prev_time s))
             (unat ms + max (unat (period s)) 1) + 1
           \<le> waste (unat (period s)) (unat (prev_time s)) lo"
  using assms unat_culong_less [of ms] unat_culong_less [of "prev_time s"]
  unfolding fires_iff elapsed_def waste_def
  by (auto simp: unat_eq_0 split: if_splits)

subsection \<open>Timestamps and the bound of the specification\<close>

lemma spaced_Cons_from: "spaced P (t # ts) \<Longrightarrow> spaced_from P (unat t + max P 1) ts"
  by (induction ts arbitrary: t) auto

lemma spaced_from_0: "spaced P ts \<Longrightarrow> spaced_from P 0 ts"
  by (cases ts) (auto dest: spaced_Cons_from)

lemma ceil_div_bound:
  assumes "0 < (m :: int)" "0 \<le> d"
  shows "d \<le> int (nat ((d + m - 1) div m)) * m"
proof -
  have "0 \<le> (d + m - 1) div m" using assms by (simp add: pos_imp_zdiv_nonneg_iff)
  moreover have "(d + m - 1) div m * m = (d + m - 1) - (d + m - 1) mod m" 
    by (simp add: minus_mod_eq_div_mult)
  moreover have "(d + m - 1) mod m \<le> m - 1" using assms(1) pos_mod_bound [of m "d + m - 1"] by simp
  ultimately show ?thesis by simp
qed

lemma spec_call_bound_covers:
  assumes "0 < min \<bar>sint (max_falling s)\<bar> (sint (max_rising s))"
  shows "\<bar>sint (target s) - sint (value s)\<bar>
           \<le> int (spec_call_bound s) * min \<bar>sint (max_falling s)\<bar> (sint (max_rising s))"
  unfolding spec_call_bound_def Let_def using assms by (intro ceil_div_bound) simp_all

lemma step_to_dist:
  assumes "mf < 0" "0 < mr"
  shows "\<bar>t - step_to mf mr v t\<bar> \<le> max 0 (\<bar>t - v\<bar> - min \<bar>mf\<bar> mr)"
  using assms by (auto simp: step_to_def)

lemma step_to_fix: "step_to mf mr t t = t"
  by (simp add: step_to_def)

subsection \<open>ChangeLimiter reaches its target\<close>

lemma update_value_at_target: "value s = target s \<Longrightarrow> update_value s = Some s"
  by (simp add: update_value_def ssub_def sadd_def to_cint_def int_ok_def to_cint_sint [unfolded to_cint_def int_ok_def])

lemma output_ms_fire:
  assumes "enabled s" "fires s ms" "int_ok (sint (target s) - sint (value s))"
    and "sint (max_falling s) \<le> 0" "0 \<le> sint (max_rising s)"
  shows "\<exists>w. output_ms s ms = Some (w, s\<lparr>prev_time := ms, value := w\<rparr>) \<and>
     sint w = step_to (sint (max_falling s)) (sint (max_rising s)) (sint (value s)) (sint (target s))"
proof -
  let ?s = "s\<lparr>prev_time := ms\<rparr>"
  obtain s' where s': "update_value ?s = Some s'"
    using update_value_SomeI [of ?s] assms(3-5) by auto
  from update_value_SomeD(2,3) [OF s'] have
    "sint (value s') = step_to (sint (max_falling s)) (sint (max_rising s)) (sint (value s)) (sint (target s))"
    "s' = s\<lparr>prev_time := ms, value := value s'\<rparr>" by simp_all
  moreover have "output_ms s ms = Some (value s', s')"
    using assms(1,2) s' by (simp add: output_ms_enabled ret_def)
  ultimately show ?thesis by metis
qed

lemma output_ms_gated:
  assumes "enabled s" "\<not> fires s ms"
  shows "output_ms s ms = Some (value s, s\<lparr>prev_time := (if prev_time s = 0 then ms else prev_time s)\<rparr>)"
  using assms by (simp add: output_ms_enabled)

lemma output_ms_at_target:
  assumes "value s = target s"
  shows "\<exists>p. output_ms s ms = Some (target s, s\<lparr>prev_time := p\<rparr>)"
proof (cases "enabled s")
  case False
  have "s\<lparr>value := target s\<rparr> = s\<lparr>prev_time := prev_time s\<rparr>" using assms by simp
  with False show ?thesis by (metis output_ms_disabled)
next
  case True
  show ?thesis
  proof (cases "fires s ms")
    case True
    have "update_value (s\<lparr>prev_time := ms\<rparr>) = Some (s\<lparr>prev_time := ms\<rparr>)"
      using assms by (simp add: update_value_at_target)
    with \<open>enabled s\<close> True assms have "output_ms s ms = Some (target s, s\<lparr>prev_time := ms\<rparr>)"
      by (simp add: output_ms_enabled ret_def)
    then show ?thesis ..
  next
    case False
    with \<open>enabled s\<close> have "output_ms s ms =
        Some (value s, s\<lparr>prev_time := (if prev_time s = 0 then ms else prev_time s)\<rparr>)"
      by (rule output_ms_gated)
    then show ?thesis unfolding assms ..
  qed
qed

lemma calls_output_ms_stay:
  assumes "value s = target s"
  shows "\<exists>s'. calls output_ms s ts = Some (replicate (length ts) (target s), s') \<and>
     value s' = target s' \<and> target s' = target s"
  using assms
proof (induction ts arbitrary: s)
  case Nil
  then show ?case by simp
next
  case (Cons t ts)
  from output_ms_at_target [OF Cons.prems, of t]
  obtain p where p: "output_ms s t = Some (target s, s\<lparr>prev_time := p\<rparr>)" ..
  have "value (s\<lparr>prev_time := p\<rparr>) = target (s\<lparr>prev_time := p\<rparr>)" using Cons.prems by simp
  from Cons.IH [OF this] p show ?case by auto
qed

lemma pot_decrease:
  assumes "0 < (m :: int)" "d' \<le> max 0 (d - m)" "d \<le> int (Suc k) * m"
  shows "d' \<le> int k * m"
proof -
  have "0 \<le> int k * m" using assms(1) by simp
  moreover have "int (Suc k) * m = int k * m + m" by (simp add: algebra_simps)
  ultimately show ?thesis using assms(2,3) by linarith
qed

lemma step_converges:
  assumes "enabled s" "sint (max_falling s) < 0" "0 < sint (max_rising s)"
    and "int_ok (sint (target s) - sint (value s))"
    and "spaced_from (unat (period s)) lo ts"
    and "\<bar>sint (target s) - sint (value s)\<bar>
           \<le> int k * min \<bar>sint (max_falling s)\<bar> (sint (max_rising s))"
    and "k + waste (unat (period s)) (unat (prev_time s)) lo \<le> length ts"
  shows "\<exists>rs s'. calls output_ms s ts = Some (rs, s') \<and> value s' = target s'"
  using assms
proof (induction ts arbitrary: s k lo)
  case Nil
  then have "sint (target s) = sint (value s)" by simp
  then have "value s = target s" by (simp add: cint_eq_iff)
  then show ?case by simp
next
  case (Cons t ts)
  let ?P = "unat (period s)"
  let ?m = "min \<bar>sint (max_falling s)\<bar> (sint (max_rising s))"
  from Cons.prems(5) have lo: "lo \<le> unat t" and sp: "spaced_from ?P (unat t + max ?P 1) ts"
    by simp_all
  show ?case
  proof (cases "fires s t")
    case True
    from output_ms_fire [OF Cons.prems(1) True Cons.prems(4)] Cons.prems(2,3)
    obtain w where out: "output_ms s t = Some (w, s\<lparr>prev_time := t, value := w\<rparr>)"
      and w: "sint w = step_to (sint (max_falling s)) (sint (max_rising s)) (sint (value s)) (sint (target s))"
      by auto
    let ?s' = "s\<lparr>prev_time := t, value := w\<rparr>"
    have dist: "\<bar>sint (target s) - sint w\<bar> \<le> max 0 (\<bar>sint (target s) - sint (value s)\<bar> - ?m)"
      unfolding w using Cons.prems(2,3) by (rule step_to_dist)
    show ?thesis
    proof (cases k)
      case 0
      with Cons.prems(2,3,6) dist have "sint (target s) = sint w" by simp
      then have "value ?s' = target ?s'" by (simp add: cint_eq_iff)
      from calls_output_ms_stay [OF this, of ts] out show ?thesis by auto
    next
      case (Suc k')
      have 1: "\<bar>sint (target ?s') - sint (value ?s')\<bar>
           \<le> int k' * min \<bar>sint (max_falling ?s')\<bar> (sint (max_rising ?s'))"
        using pot_decrease [OF _ dist, of k'] Cons.prems(6) Cons.prems(2,3) Suc by simp
      have 2: "int_ok (sint (target ?s') - sint (value ?s'))"
        using dist Cons.prems(2,3,4) by (auto simp: int_ok_def)
      have 3: "k' + waste (unat (period ?s')) (unat (prev_time ?s')) (unat t + max ?P 1) \<le> length ts"
        using waste_fire [OF True lo] Cons.prems(7) Suc by simp
      from Cons.IH [of ?s' "unat t + max ?P 1" k'] Cons.prems(1,2,3) 1 2 3 sp
      obtain rs s'' where "calls output_ms ?s' ts = Some (rs, s'')" "value s'' = target s''"
        by auto
      with out show ?thesis by auto
    qed
  next
    case False
    let ?s' = "s\<lparr>prev_time := (if prev_time s = 0 then t else prev_time s)\<rparr>"
    have out: "output_ms s t = Some (value s, ?s')"
      using Cons.prems(1) False by (rule output_ms_gated)
    have 3: "k + waste (unat (period ?s')) (unat (prev_time ?s')) (unat t + max ?P 1) \<le> length ts"
      using waste_gated [OF False lo] Cons.prems(7) by simp
    from Cons.IH [of ?s' "unat t + max ?P 1" k] Cons.prems(1,2,3,4,6) 3 sp
    obtain rs s'' where "calls output_ms ?s' ts = Some (rs, s'')" "value s'' = target s''"
      by auto
    with out show ?thesis by auto
  qed
qed

subsection \<open>AbsChangeLimiter reaches its target\<close>

lemma abs_step_to_fix: "abs_step_to mf mr t t = t"
  by (simp add: abs_step_to_def)

lemma abs_pot_0: "0 < m \<Longrightarrow> abs_pot m v t \<le> 0 \<Longrightarrow> v = t"
  by (auto simp: abs_pot_def split: if_splits)

lemma abs_step_to_pos_neg:
  "0 < v \<Longrightarrow> t < 0 \<Longrightarrow> abs_step_to mf mr v t = (if v \<le> mf then 0 else v - mf)"
  by (simp add: abs_step_to_def)

lemma abs_step_to_neg_pos:
  "v < 0 \<Longrightarrow> 0 < t \<Longrightarrow> abs_step_to mf mr v t = (if - v \<le> mf then 0 else v + mf)"
  by (simp add: abs_step_to_def)

lemma abs_step_to_nonneg:
  "0 \<le> v \<Longrightarrow> 0 \<le> t \<Longrightarrow> abs_step_to mf mr v t =
     (if 0 < t - v \<and> mr < t - v then v + mr
      else if t - v < 0 \<and> mf < v - t then v - mf
      else t)"
  by (auto simp add: abs_step_to_def Let_def sgn_if)

lemma abs_step_to_nonpos:
  "v \<le> 0 \<Longrightarrow> t \<le> 0 \<Longrightarrow> abs_step_to mf mr v t =
     (if 0 < v - t \<and> mr < v - t then v - mr
      else if v - t < 0 \<and> mf < t - v then v + mf
      else t)"
  by (auto simp add: abs_step_to_def Let_def sgn_if)

lemma sign_cases4:
  fixes v t :: int
  obtains "0 < v" "t < 0" | "v < 0" "0 < t" | "0 \<le> v" "0 \<le> t" | "v \<le> 0" "t \<le> 0"
  by linarith

lemma abs_step_to_bound:
  assumes "0 \<le> mf" "0 \<le> mr"
  shows "\<bar>abs_step_to mf mr v t\<bar> \<le> max \<bar>v\<bar> \<bar>t\<bar>"
proof (cases v t rule: sign_cases4)
  case 1 then show ?thesis using assms by (auto simp add: abs_step_to_pos_neg)
next
  case 2 then show ?thesis using assms by (auto simp add: abs_step_to_neg_pos)
next
  case 3 then show ?thesis using assms by (auto simp add: abs_step_to_nonneg)
next
  case 4 then show ?thesis using assms by (auto simp add: abs_step_to_nonpos)
qed

lemma abs_step_to_pot:
  assumes "0 < mf" "0 < mr"
  shows "abs_pot (min mf mr) (abs_step_to mf mr v t) t
           \<le> max 0 (abs_pot (min mf mr) v t - min mf mr)"
proof (cases v t rule: sign_cases4)
  case 1 then show ?thesis using assms by (auto simp add: abs_step_to_pos_neg abs_pot_def)
next
  case 2 then show ?thesis using assms by (auto simp add: abs_step_to_neg_pos abs_pot_def)
next
  case 3 then show ?thesis using assms by (auto simp add: abs_step_to_nonneg abs_pot_def)
next
  case 4 then show ?thesis using assms by (auto simp add: abs_step_to_nonpos abs_pot_def)
qed

lemma pot_zero:
  assumes "0 < (m :: int)" "d' \<le> max 0 (d - m)" "d \<le> 0"
  shows "d' \<le> 0"
  using assms by arith

lemma abs_output_ms_fire:
  assumes "enabled s" "fires s ms"
    and "sint (value s) \<noteq> - 32768" "sint (target s) \<noteq> - 32768"
    and "0 \<le> sint (max_falling s)" "0 \<le> sint (max_rising s)"
  shows "\<exists>w. abs_output_ms s ms = Some (w, s\<lparr>prev_time := ms, value := w\<rparr>) \<and>
     sint w = abs_step_to (sint (max_falling s)) (sint (max_rising s)) (sint (value s)) (sint (target s))"
proof -
  let ?s = "s\<lparr>prev_time := ms\<rparr>"
  obtain s' where s': "abs_update_value ?s = Some s'"
    using abs_update_value_SomeI [of ?s] assms(3-6) by auto
  from abs_update_value_SomeD [OF s'] have
    "sint (value s') = abs_step_to (sint (max_falling s)) (sint (max_rising s)) (sint (value s)) (sint (target s))"
    "s' = s\<lparr>prev_time := ms, value := value s'\<rparr>" by simp_all
  moreover have "abs_output_ms s ms = Some (value s', s')"
    using assms(1,2) s' by (simp add: abs_output_ms_enabled ret_def)
  ultimately show ?thesis by metis
qed

lemma abs_output_ms_gated:
  assumes "enabled s" "\<not> fires s ms"
  shows "abs_output_ms s ms = Some (value s, s\<lparr>prev_time := (if prev_time s = 0 then ms else prev_time s)\<rparr>)"
  using assms by (simp add: abs_output_ms_enabled)

lemma abs_output_ms_at_target:
  assumes "value s = target s" "sint (target s) \<noteq> - 32768"
    and "0 \<le> sint (max_falling s)" "0 \<le> sint (max_rising s)"
  shows "\<exists>p. abs_output_ms s ms = Some (target s, s\<lparr>prev_time := p\<rparr>)"
proof (cases "enabled s")
  case False
  have "s\<lparr>value := target s\<rparr> = s\<lparr>prev_time := prev_time s\<rparr>" using assms(1) by simp
  with False show ?thesis by (metis abs_output_ms_disabled)
next
  case True
  show ?thesis
  proof (cases "fires s ms")
    case True
    from abs_output_ms_fire [OF \<open>enabled s\<close> True] assms
    obtain w where out: "abs_output_ms s ms = Some (w, s\<lparr>prev_time := ms, value := w\<rparr>)"
      and w: "sint w = abs_step_to (sint (max_falling s)) (sint (max_rising s)) (sint (target s)) (sint (target s))"
      by auto
    from w have "w = target s" by (simp add: abs_step_to_fix cint_eq_iff)
    moreover have "s\<lparr>prev_time := ms, value := target s\<rparr> = s\<lparr>prev_time := ms\<rparr>"
      using assms(1) by simp
    ultimately have "abs_output_ms s ms = Some (target s, s\<lparr>prev_time := ms\<rparr>)"
      using out by simp
    then show ?thesis ..
  next
    case False
    with \<open>enabled s\<close> have "abs_output_ms s ms =
        Some (value s, s\<lparr>prev_time := (if prev_time s = 0 then ms else prev_time s)\<rparr>)"
      by (rule abs_output_ms_gated)
    then show ?thesis unfolding assms(1) ..
  qed
qed

lemma calls_abs_output_ms_stay:
  assumes "value s = target s" "sint (target s) \<noteq> - 32768"
    and "0 \<le> sint (max_falling s)" "0 \<le> sint (max_rising s)"
  shows "\<exists>s'. calls abs_output_ms s ts = Some (replicate (length ts) (target s), s') \<and>
     value s' = target s' \<and> target s' = target s"
  using assms
proof (induction ts arbitrary: s)
  case Nil
  then show ?case by simp
next
  case (Cons t ts)
  from abs_output_ms_at_target [OF Cons.prems, of t]
  obtain p where p: "abs_output_ms s t = Some (target s, s\<lparr>prev_time := p\<rparr>)" ..
  from Cons.IH [of "s\<lparr>prev_time := p\<rparr>"] Cons.prems p show ?case by auto
qed

lemma abs_converges:
  assumes "enabled s" "0 < sint (max_falling s)" "0 < sint (max_rising s)"
    and "sint (value s) \<noteq> - 32768" "sint (target s) \<noteq> - 32768"
    and "spaced_from (unat (period s)) lo ts"
    and "abs_pot (min (sint (max_falling s)) (sint (max_rising s))) (sint (value s)) (sint (target s))
           \<le> int k * min (sint (max_falling s)) (sint (max_rising s))"
    and "k + waste (unat (period s)) (unat (prev_time s)) lo \<le> length ts"
  shows "\<exists>rs s'. calls abs_output_ms s ts = Some (rs, s') \<and> value s' = target s'"
  using assms
proof (induction ts arbitrary: s k lo)
  case Nil
  then have "abs_pot (min (sint (max_falling s)) (sint (max_rising s))) (sint (value s)) (sint (target s)) \<le> 0"
    by simp
  with Nil.prems(2,3) have "sint (value s) = sint (target s)" by (intro abs_pot_0) simp_all
  then have "value s = target s" by (simp add: cint_eq_iff)
  then show ?case by simp
next
  case (Cons t ts)
  let ?P = "unat (period s)"
  let ?m = "min (sint (max_falling s)) (sint (max_rising s))"
  have m: "0 < ?m" using Cons.prems(2,3) by simp
  from Cons.prems(6) have lo: "lo \<le> unat t" and sp: "spaced_from ?P (unat t + max ?P 1) ts"
    by simp_all
  show ?case
  proof (cases "fires s t")
    case True
    from abs_output_ms_fire [OF Cons.prems(1) True Cons.prems(4,5)] Cons.prems(2,3)
    obtain w where out: "abs_output_ms s t = Some (w, s\<lparr>prev_time := t, value := w\<rparr>)"
      and w: "sint w = abs_step_to (sint (max_falling s)) (sint (max_rising s)) (sint (value s)) (sint (target s))"
      by auto
    let ?s' = "s\<lparr>prev_time := t, value := w\<rparr>"
    have pot: "abs_pot ?m (sint w) (sint (target s)) \<le> max 0 (abs_pot ?m (sint (value s)) (sint (target s)) - ?m)"
      unfolding w using Cons.prems(2,3) by (rule abs_step_to_pot)
    have "\<bar>sint w\<bar> \<le> max \<bar>sint (value s)\<bar> \<bar>sint (target s)\<bar>"
      unfolding w using Cons.prems(2,3) by (intro abs_step_to_bound) simp_all
    then have wok: "sint w \<noteq> - 32768"
      using Cons.prems(4,5) int_ok_sint [of "value s"] int_ok_sint [of "target s"]
      by (auto simp: int_ok_def)
    show ?thesis
    proof (cases k)
      case 0
      with Cons.prems(7) have "abs_pot ?m (sint (value s)) (sint (target s)) \<le> 0" by simp
      with m pot have "abs_pot ?m (sint w) (sint (target s)) \<le> 0" by (rule pot_zero)
      with m have "sint w = sint (target s)" by (rule abs_pot_0)
      then have "value ?s' = target ?s'" by (simp add: cint_eq_iff)
      from calls_abs_output_ms_stay [OF this, of ts] Cons.prems(2,3,5) out show ?thesis by auto
    next
      case (Suc k')
      have 1: "abs_pot (min (sint (max_falling ?s')) (sint (max_rising ?s'))) (sint (value ?s')) (sint (target ?s'))
           \<le> int k' * min (sint (max_falling ?s')) (sint (max_rising ?s'))"
        using pot_decrease [OF m pot, of k'] Cons.prems(7) Suc by simp
      have 3: "k' + waste (unat (period ?s')) (unat (prev_time ?s')) (unat t + max ?P 1) \<le> length ts"
        using waste_fire [OF True lo] Cons.prems(8) Suc by simp
      from Cons.IH [of ?s' "unat t + max ?P 1" k'] Cons.prems(1,2,3,5) wok 1 3 sp
      obtain rs s'' where "calls abs_output_ms ?s' ts = Some (rs, s'')" "value s'' = target s''"
        by auto
      with out show ?thesis by auto
    qed
  next
    case False
    let ?s' = "s\<lparr>prev_time := (if prev_time s = 0 then t else prev_time s)\<rparr>"
    have out: "abs_output_ms s t = Some (value s, ?s')"
      using Cons.prems(1) False by (rule abs_output_ms_gated)
    have 3: "k + waste (unat (period ?s')) (unat (prev_time ?s')) (unat t + max ?P 1) \<le> length ts"
      using waste_gated [OF False lo] Cons.prems(8) by simp
    from Cons.IH [of ?s' "unat t + max ?P 1" k] Cons.prems(1,2,3,4,5,7) 3 sp
    obtain rs s'' where "calls abs_output_ms ?s' ts = Some (rs, s'')" "value s'' = target s''"
      by auto
    with out show ?thesis by auto
  qed
qed

subsection \<open>What a call leaves unchanged\<close>

lemmas arith_defs = ssub_def sadd_def smul_def sneg_def abs_c_def to_cint_def int_ok_def
lemmas abs_defs = abs_update_value_def differentSigns_def dir_of_def sign_def

lemma update_value_prev_time: "update_value s = Some s' \<Longrightarrow> prev_time s' = prev_time s"
  using update_value_SomeD(3) [of s s'] by (cases s') (cases s, simp)

lemma abs_update_value_prev_time: "abs_update_value s = Some s' \<Longrightarrow> prev_time s' = prev_time s"
  using abs_update_value_SomeD(2) [of s s'] by (cases s') (cases s, simp)

lemma fires_sentinel: "prev_time s = 0 \<Longrightarrow> fires s ms \<longleftrightarrow> period s = 0"
  by (simp add: fires_iff elapsed_def unat_eq_0)

subsection \<open>The limit setters\<close>

lemma sneg_eq_Some: "sneg a = Some w \<longleftrightarrow> sint a \<noteq> - 32768 \<and> sint w = - sint a"
  using int_ok_sint [of a] by (auto simp: sneg_def to_cint_eq_Some int_ok_def)

lemma sneg_SomeE:
  assumes "sint a \<noteq> - 32768"
  obtains w where "sneg a = Some w" "sint w = - sint a"
proof -
  have "int_ok (- sint a)" using assms int_ok_sint [of a] by (simp add: int_ok_def)
  from to_cint_SomeI [OF this] that show ?thesis by (auto simp: sneg_def)
qed

lemma set_limit_SomeD:
  assumes "set_limit a b s = Some s'"
  shows "sint (max_falling s') = - \<bar>sint a\<bar>" "sint (max_rising s') = \<bar>sint b\<bar>"
    "s' = s\<lparr>max_falling := max_falling s', max_rising := max_rising s'\<rparr>"
  using assms
  by (auto simp: set_limit_def bind_eq_Some_conv abs_c_eq_Some sneg_eq_Some)

lemma set_limit_SomeI:
  assumes "sint a \<noteq> - 32768" "sint b \<noteq> - 32768"
  shows "\<exists>s'. set_limit a b s = Some s'"
proof -
  obtain a' where a': "abs_c a = Some a'" "sint a' = \<bar>sint a\<bar>" using assms(1) by (rule abs_c_SomeE)
  have "sint a' \<noteq> - 32768" using a'(2) by simp
  then obtain f where f: "sneg a' = Some f" "sint f = - sint a'" by (rule sneg_SomeE)
  obtain r where r: "abs_c b = Some r" "sint r = \<bar>sint b\<bar>" using assms(2) by (rule abs_c_SomeE)
  show ?thesis using a'(1) f(1) r(1) by (simp add: set_limit_def)
qed

lemma abs_set_limit_SomeD:
  assumes "abs_set_limit a b s = Some s'"
  shows "sint (max_falling s') = \<bar>sint a\<bar>" "sint (max_rising s') = \<bar>sint b\<bar>"
    "s' = s\<lparr>max_falling := max_falling s', max_rising := max_rising s'\<rparr>"
  using assms
  by (auto simp: abs_set_limit_def bind_eq_Some_conv abs_c_eq_Some)

lemma abs_set_limit_SomeI:
  assumes "sint a \<noteq> - 32768" "sint b \<noteq> - 32768"
  shows "\<exists>s'. abs_set_limit a b s = Some s'"
proof -
  obtain f where f: "abs_c a = Some f" "sint f = \<bar>sint a\<bar>" using assms(1) by (rule abs_c_SomeE)
  obtain r where r: "abs_c b = Some r" "sint r = \<bar>sint b\<bar>" using assms(2) by (rule abs_c_SomeE)
  show ?thesis using f(1) r(1) by (simp add: abs_set_limit_def)
qed

subsection \<open>The steps of the zero-crossing example\<close>

lemma scenario_step:
  "abs_output_ms \<lparr>enabled = True, max_falling = 10, max_rising = 100, period = 0,
       prev_time = p, value = - 34, target = 130\<rparr> t =
     Some (- 24, \<lparr>enabled = True, max_falling = 10, max_rising = 100, period = 0,
       prev_time = t, value = - 24, target = 130\<rparr>)"
  "abs_output_ms \<lparr>enabled = True, max_falling = 10, max_rising = 100, period = 0,
       prev_time = p, value = - 24, target = 130\<rparr> t =
     Some (- 14, \<lparr>enabled = True, max_falling = 10, max_rising = 100, period = 0,
       prev_time = t, value = - 14, target = 130\<rparr>)"
  "abs_output_ms \<lparr>enabled = True, max_falling = 10, max_rising = 100, period = 0,
       prev_time = p, value = - 14, target = 130\<rparr> t =
     Some (- 4, \<lparr>enabled = True, max_falling = 10, max_rising = 100, period = 0,
       prev_time = t, value = - 4, target = 130\<rparr>)"
  "abs_output_ms \<lparr>enabled = True, max_falling = 10, max_rising = 100, period = 0,
       prev_time = p, value = - 4, target = 130\<rparr> t =
     Some (0, \<lparr>enabled = True, max_falling = 10, max_rising = 100, period = 0,
       prev_time = t, value = 0, target = 130\<rparr>)"
  "abs_output_ms \<lparr>enabled = True, max_falling = 10, max_rising = 100, period = 0,
       prev_time = p, value = 0, target = 130\<rparr> t =
     Some (100, \<lparr>enabled = True, max_falling = 10, max_rising = 100, period = 0,
       prev_time = t, value = 100, target = 130\<rparr>)"
  "abs_output_ms \<lparr>enabled = True, max_falling = 10, max_rising = 100, period = 0,
       prev_time = p, value = 100, target = 130\<rparr> t =
     Some (130, \<lparr>enabled = True, max_falling = 10, max_rising = 100, period = 0,
       prev_time = t, value = 130, target = 130\<rparr>)"
  by (simp_all add: abs_output_ms_def abs_defs arith_defs)

subsection \<open>Counting the calls\<close>

lemma waste_le_gate: "waste P p lo \<le> (if P = 0 then 0 else 2)"
  by (simp add: waste_def)

lemma disabled_converges:
  assumes "\<not> enabled s" "ts \<noteq> []"
  shows "\<exists>rs s'. calls output_ms s ts = Some (rs, s') \<and> value s' = target s'"
proof -
  from assms(2) obtain t ts' where ts: "ts = t # ts'" by (cases ts) auto
  let ?s = "s\<lparr>value := target s\<rparr>"
  have "value ?s = target ?s" by simp
  from calls_output_ms_stay [OF this, of ts'] assms(1) show ?thesis
    by (auto simp: ts output_ms_disabled)
qed

lemma abs_disabled_converges:
  assumes "\<not> enabled s" "ts \<noteq> []" "sint (target s) \<noteq> - 32768"
    and "0 \<le> sint (max_falling s)" "0 \<le> sint (max_rising s)"
  shows "\<exists>rs s'. calls abs_output_ms s ts = Some (rs, s') \<and> value s' = target s'"
proof -
  from assms(2) obtain t ts' where ts: "ts = t # ts'" by (cases ts) auto
  let ?s = "s\<lparr>value := target s\<rparr>"
  have "\<exists>s'. calls abs_output_ms ?s ts' = Some (replicate (length ts') (target ?s), s') \<and>
     value s' = target s' \<and> target s' = target ?s"
    using assms(3-5) by (intro calls_abs_output_ms_stay) simp_all
  with assms(1) show ?thesis
    by (auto simp: ts abs_output_ms_disabled)
qed

lemma spec_call_bound_pos:
  assumes "0 < min \<bar>sint (max_falling s)\<bar> (sint (max_rising s))" "value s \<noteq> target s"
  shows "0 < spec_call_bound s"
proof (rule ccontr)
  assume "\<not> 0 < spec_call_bound s"
  with spec_call_bound_covers [OF assms(1)] have "sint (target s) = sint (value s)" by simp
  with assms(2) show False by (simp add: cint_eq_iff)
qed

lemma abs_pot_le:
  assumes "0 < m" "\<bar>t - v\<bar> \<le> int k * m"
  shows "abs_pot m v t \<le> int (k + (if (0 < v \<and> t < 0) \<or> (v < 0 \<and> 0 < t) then 1 else 0)) * m"
  using assms by (auto simp: abs_pot_def algebra_simps)

section \<open>The claims\<close>

text \<open>
  Claim C1. An \<open>AbsChangeLimiter\<close> with \<open>maxFalling = 10\<close>, \<open>maxRising = 100\<close>,
  \<open>period = 0\<close>, enabled, \<open>value = -34\<close> and \<open>target = 130\<close>, called at any timestamps
  (and whatever its last update time), returns \<open>-24, -14, -4, 0, 100, 130\<close> on its
  first six calls and \<open>130\<close> on every call after them.
\<close>

theorem zero_crossing_scenario:
  "map_option fst
     (calls abs_output_ms
        \<lparr>enabled = True, max_falling = 10, max_rising = 100, period = 0,
         prev_time = p, value = - 34, target = 130\<rparr>
        (t1 # t2 # t3 # t4 # t5 # t6 # ts)) =
   Some ([- 24, - 14, - 4, 0, 100, 130] @ replicate (length ts) 130)"
proof -
  let ?s = "\<lparr>enabled = True, max_falling = 10, max_rising = 100, period = 0,
         prev_time = t6, value = 130, target = 130 :: cint\<rparr>"
  have "\<exists>s'. calls abs_output_ms ?s ts = Some (replicate (length ts) (target ?s), s') \<and>
     value s' = target s' \<and> target s' = target ?s"
    by (rule calls_abs_output_ms_stay) simp_all
  then obtain s' where "calls abs_output_ms ?s ts = Some (replicate (length ts) 130, s')"
    by auto
  then show ?thesis by (simp add: scenario_step)
qed

text \<open>
  Claim C2, as amended. The claim gives \<open>ceil (|target - value| / min (|maxFalling|,
  maxRising))\<close> calls as the bound for both limiters. The code needs more, by its design:
  with a nonzero period the first-call assignment to \<^verbatim>\<open>prev_time_\<close> and the period test can
  let two calls pass without an update, and \<open>AbsChangeLimiter\<close> stops at zero when value
  and target have opposite signs, which can cost one call (the counterexample below
  gives an input for each). What holds, for limits that are nonzero and of the signs the
  setters give them, for timestamps that increase strictly and are at least the period
  apart, and as long as no signed operation overflows (\<open>target - value\<close> is
  representable for \<open>ChangeLimiter\<close>, neither value nor target is the most negative
  \<^verbatim>\<open>int\<close> for \<open>AbsChangeLimiter\<close>): every call returns, and \<open>target_reached\<close> holds
  after any number of calls that is at least the bound of the specification, plus two
  when the period is nonzero, plus one for \<open>AbsChangeLimiter\<close> when value and target
  have opposite signs.
\<close>

theorem convergence_within_calls:
  "(sint (max_falling s) < 0 \<and> 0 < sint (max_rising s) \<and>
    int_ok (sint (target s) - sint (value s)) \<and>
    spaced (unat (period s)) ts \<and>
    spec_call_bound s + (if period s = 0 then 0 else 2) \<le> length ts \<longrightarrow>
      (\<exists>rs s'. calls output_ms s ts = Some (rs, s') \<and> target_reached s')) \<and>
   (0 < sint (max_falling s) \<and> 0 < sint (max_rising s) \<and>
    sint (value s) \<noteq> - 32768 \<and> sint (target s) \<noteq> - 32768 \<and>
    spaced (unat (period s)) ts \<and>
    spec_call_bound s + (if differentSigns s then 1 else 0) + (if period s = 0 then 0 else 2)
      \<le> length ts \<longrightarrow>
      (\<exists>rs s'. calls abs_output_ms s ts = Some (rs, s') \<and> target_reached s'))"
proof (intro conjI impI; elim conjE)
  let ?P = "unat (period s)"
  let ?g = "if period s = 0 then 0 else 2 :: nat"
  have w: "waste ?P (unat (prev_time s)) 0 \<le> ?g"
    using waste_le_gate [of ?P] by (simp add: unat_eq_0)
  {
    assume mf: "sint (max_falling s) < 0" and mr: "0 < sint (max_rising s)"
      and ok: "int_ok (sint (target s) - sint (value s))"
      and sp: "spaced ?P ts" and len: "spec_call_bound s + ?g \<le> length ts"
    have m: "0 < min \<bar>sint (max_falling s)\<bar> (sint (max_rising s))" using mf mr by simp
    show "\<exists>rs s'. calls output_ms s ts = Some (rs, s') \<and> target_reached s'"
      unfolding target_reached_def
    proof (cases "enabled s")
      case True
      from True mf mr ok spaced_from_0 [OF sp] spec_call_bound_covers [OF m]
      show "\<exists>rs s'. calls output_ms s ts = Some (rs, s') \<and> value s' = target s'"
        by (rule step_converges) (use w len in simp)
    next
      case False
      show "\<exists>rs s'. calls output_ms s ts = Some (rs, s') \<and> value s' = target s'"
      proof (cases "ts = []")
        case True
        with len have "spec_call_bound s = 0" by simp
        with spec_call_bound_pos [OF m] have "value s = target s" by auto
        with True show ?thesis by simp
      next
        case False
        with \<open>\<not> enabled s\<close> show ?thesis by (rule disabled_converges)
      qed
    qed
  }
  {
    assume mf: "0 < sint (max_falling s)" and mr: "0 < sint (max_rising s)"
      and v: "sint (value s) \<noteq> - 32768" and t: "sint (target s) \<noteq> - 32768"
      and sp: "spaced ?P ts"
      and len: "spec_call_bound s + (if differentSigns s then 1 else 0) + ?g \<le> length ts"
    let ?m = "min (sint (max_falling s)) (sint (max_rising s))"
    have m: "0 < ?m" using mf mr by simp
    have m': "min \<bar>sint (max_falling s)\<bar> (sint (max_rising s)) = ?m" using mf by simp
    have cb: "\<bar>sint (target s) - sint (value s)\<bar> \<le> int (spec_call_bound s) * ?m"
      using spec_call_bound_covers [of s] m unfolding m' by simp
    let ?k = "spec_call_bound s + (if differentSigns s then 1 else 0)"
    have pot: "abs_pot ?m (sint (value s)) (sint (target s)) \<le> int ?k * ?m"
      using abs_pot_le [OF m cb] by (simp add: differentSigns_iff)
    show "\<exists>rs s'. calls abs_output_ms s ts = Some (rs, s') \<and> target_reached s'"
      unfolding target_reached_def
    proof (cases "enabled s")
      case True
      from True mf mr v t spaced_from_0 [OF sp] pot
      show "\<exists>rs s'. calls abs_output_ms s ts = Some (rs, s') \<and> value s' = target s'"
        by (rule abs_converges) (use w len in simp)
    next
      case False
      show "\<exists>rs s'. calls abs_output_ms s ts = Some (rs, s') \<and> value s' = target s'"
      proof (cases "ts = []")
        case True
        with len have "spec_call_bound s = 0" by simp
        with spec_call_bound_pos [of s] m m' have "value s = target s" by auto
        with True show ?thesis by simp
      next
        case False
        with \<open>\<not> enabled s\<close> show ?thesis using t mf mr
          by (intro abs_disabled_converges) simp_all
      qed
    qed
  }
qed

theorem convergence_within_calls_witness:
  "sint (- 10 :: cint) < 0 \<and> 0 < sint (10 :: cint) \<and>
   int_ok (sint (5 :: cint) - sint (0 :: cint)) \<and>
   spaced (unat (100 :: cuint)) [0, 100, 200] \<and>
   spec_call_bound \<lparr>enabled = True, max_falling = - 10, max_rising = 10, period = 100,
       prev_time = 0, value = 0, target = 5\<rparr> + 2 \<le> length [0, 100, 200 :: culong] \<and>
   (\<exists>rs s'. calls output_ms \<lparr>enabled = True, max_falling = - 10, max_rising = 10, period = 100,
       prev_time = 0, value = 0, target = 5\<rparr> [0, 100, 200] = Some (rs, s') \<and> target_reached s') \<and>
   sint (- 1 :: cint) \<noteq> - 32768 \<and> sint (1 :: cint) \<noteq> - 32768 \<and>
   differentSigns \<lparr>enabled = True, max_falling = 10, max_rising = 10, period = 0,
       prev_time = 0, value = - 1, target = 1\<rparr> \<and>
   spec_call_bound \<lparr>enabled = True, max_falling = 10, max_rising = 10, period = 0,
       prev_time = 0, value = - 1, target = 1\<rparr> + 1 \<le> length [1000, 1001 :: culong] \<and>
   (\<exists>rs s'. calls abs_output_ms \<lparr>enabled = True, max_falling = 10, max_rising = 10, period = 0,
       prev_time = 0, value = - 1, target = 1\<rparr> [1000, 1001] = Some (rs, s') \<and> target_reached s')"
  using convergence_within_calls [of "\<lparr>enabled = True, max_falling = - 10, max_rising = 10,
       period = 100, prev_time = 0, value = 0, target = 5\<rparr>" "[0, 100, 200]"]
    convergence_within_calls [of "\<lparr>enabled = True, max_falling = 10, max_rising = 10,
       period = 0, prev_time = 0, value = - 1, target = 1\<rparr>" "[1000, 1001]"]
  by (simp add: spec_call_bound_def int_ok_def differentSigns_def sign_def)

theorem convergence_bound_counterexample:
  "map_option (\<lambda>s. set_target 5 (set_period 100 s))
     (set_limit1 10 (begin_limiter \<lparr>enabled = False, max_falling = 0, max_rising = 0, period = 0,
       prev_time = 0, value = 0, target = 0\<rparr>)) =
     Some \<lparr>enabled = True, max_falling = - 10, max_rising = 10, period = 100,
       prev_time = 0, value = 0, target = 5\<rparr> \<and>
   spec_call_bound \<lparr>enabled = True, max_falling = - 10, max_rising = 10, period = 100,
       prev_time = 0, value = 0, target = 5\<rparr> = 1 \<and>
   spaced (unat (100 :: cuint)) [1000] \<and>
   calls output_ms \<lparr>enabled = True, max_falling = - 10, max_rising = 10, period = 100,
       prev_time = 0, value = 0, target = 5\<rparr> [1000] =
     Some ([0], \<lparr>enabled = True, max_falling = - 10, max_rising = 10, period = 100,
       prev_time = 1000, value = 0, target = 5\<rparr>) \<and>
   \<not> target_reached \<lparr>enabled = True, max_falling = - 10, max_rising = 10, period = 100,
       prev_time = 1000, value = 0, target = 5\<rparr> \<and>
   spaced (unat (100 :: cuint)) [0, 100] \<and>
   calls output_ms \<lparr>enabled = True, max_falling = - 10, max_rising = 10, period = 100,
       prev_time = 0, value = 0, target = 5\<rparr> [0, 100] =
     Some ([0, 0], \<lparr>enabled = True, max_falling = - 10, max_rising = 10, period = 100,
       prev_time = 100, value = 0, target = 5\<rparr>) \<and>
   \<not> target_reached \<lparr>enabled = True, max_falling = - 10, max_rising = 10, period = 100,
       prev_time = 100, value = 0, target = 5\<rparr> \<and>
   map_option (\<lambda>s. set_target 1 (set_value (- 1) s))
     (abs_set_limit 10 10 (begin_limiter \<lparr>enabled = False, max_falling = 0, max_rising = 0,
       period = 0, prev_time = 0, value = 0, target = 0\<rparr>)) =
     Some \<lparr>enabled = True, max_falling = 10, max_rising = 10, period = 0,
       prev_time = 0, value = - 1, target = 1\<rparr> \<and>
   spec_call_bound \<lparr>enabled = True, max_falling = 10, max_rising = 10, period = 0,
       prev_time = 0, value = - 1, target = 1\<rparr> = 1 \<and>
   spaced (unat (0 :: cuint)) [1000] \<and>
   calls abs_output_ms \<lparr>enabled = True, max_falling = 10, max_rising = 10, period = 0,
       prev_time = 0, value = - 1, target = 1\<rparr> [1000] =
     Some ([0], \<lparr>enabled = True, max_falling = 10, max_rising = 10, period = 0,
       prev_time = 1000, value = 0, target = 1\<rparr>) \<and>
   \<not> target_reached \<lparr>enabled = True, max_falling = 10, max_rising = 10, period = 0,
       prev_time = 1000, value = 0, target = 1\<rparr>"
  by (simp add: begin_limiter_def set_limit1_def set_limit_def abs_set_limit_def
      set_target_def set_period_def set_value_def spec_call_bound_def target_reached_def
      output_ms_def abs_output_ms_def update_value_def abs_defs arith_defs)

text \<open>
  Claim C3. For \<open>ChangeLimiter\<close> with \<open>maxFalling \<le> 0 \<le> maxRising\<close>, a call never moves the
  value past the target: whenever a call returns, the target is unchanged, the new value
  lies between the old value and the target (on the side of the target the old value was
  on), and so its distance to the target has not grown. A call returns whenever
  \<open>target - value\<close> is representable, that is, unless the subtraction of the code
  overflows.
\<close>

theorem no_overshoot:
  assumes "sint (max_falling s) \<le> 0" "0 \<le> sint (max_rising s)"
  shows "(int_ok (sint (target s) - sint (value s)) \<longrightarrow> (\<exists>r s'. output_ms s ms = Some (r, s'))) \<and>
         (\<forall>r s'. output_ms s ms = Some (r, s') \<longrightarrow>
            r = value s' \<and> target s' = target s \<and>
            \<bar>sint (value s') - sint (target s)\<bar> \<le> \<bar>sint (value s) - sint (target s)\<bar> \<and>
            (sint (value s) \<le> sint (target s) \<longrightarrow>
               sint (value s) \<le> sint (value s') \<and> sint (value s') \<le> sint (target s)) \<and>
            (sint (target s) \<le> sint (value s) \<longrightarrow>
               sint (target s) \<le> sint (value s') \<and> sint (value s') \<le> sint (value s)))"
proof (intro conjI impI allI)
  assume ok: "int_ok (sint (target s) - sint (value s))"
  show "\<exists>r s'. output_ms s ms = Some (r, s')"
  proof (cases "enabled s")
    case False
    then show ?thesis by (simp add: output_ms_disabled)
  next
    case True
    show ?thesis
    proof (cases "fires s ms")
      case True
      from output_ms_fire [OF \<open>enabled s\<close> True ok assms] show ?thesis by blast
    next
      case False
      with \<open>enabled s\<close> show ?thesis by (simp add: output_ms_gated)
    qed
  qed
next
  fix r s'
  assume out: "output_ms s ms = Some (r, s')"
  let ?v = "sint (value s)" and ?t = "sint (target s)"
  let ?st = "step_to (sint (max_falling s)) (sint (max_rising s)) ?v ?t"
  have "r = value s' \<and> target s' = target s \<and> (sint (value s') = ?v \<or> sint (value s') = ?t \<or> sint (value s') = ?st)"
  proof (cases "enabled s")
    case False
    with out show ?thesis by (auto simp: output_ms_disabled)
  next
    case True
    show ?thesis
    proof (cases "fires s ms")
      case True
      with \<open>enabled s\<close> out have u: "update_value (s\<lparr>prev_time := ms\<rparr>) = Some s'" and r: "r = value s'"
        by (auto simp: output_ms_enabled ret_def)
      from update_value_SomeD(2,3) [OF u] have "sint (value s') = ?st"
        and "s' = s\<lparr>prev_time := ms, value := value s'\<rparr>" by simp_all
      moreover from update_value_frame [OF u] have "target s' = target s" by auto
      ultimately show ?thesis using r by simp
    next
      case False
      with \<open>enabled s\<close> out show ?thesis by (auto simp: output_ms_gated)
    qed
  qed
  moreover note step_to_between [OF assms, where v = "?v" and t = "?t"]
  ultimately show "r = value s'" "target s' = target s"
    "\<bar>sint (value s') - ?t\<bar> \<le> \<bar>?v - ?t\<bar>"
    "?v \<le> ?t \<Longrightarrow> ?v \<le> sint (value s')" "?v \<le> ?t \<Longrightarrow> sint (value s') \<le> ?t"
    "?t \<le> ?v \<Longrightarrow> ?t \<le> sint (value s')" "?t \<le> ?v \<Longrightarrow> sint (value s') \<le> ?v"
    by auto
qed

theorem no_overshoot_witness:
  "sint (- 10 :: cint) \<le> 0 \<and> 0 \<le> sint (100 :: cint) \<and>
   int_ok (sint (130 :: cint) - sint (- 34 :: cint)) \<and>
   output_ms \<lparr>enabled = True, max_falling = - 10, max_rising = 100, period = 0,
       prev_time = 0, value = - 34, target = 130\<rparr> 7 =
     Some (66, \<lparr>enabled = True, max_falling = - 10, max_rising = 100, period = 0,
       prev_time = 7, value = 66, target = 130\<rparr>) \<and>
   \<bar>sint (66 :: cint) - sint (130 :: cint)\<bar> \<le> \<bar>sint (- 34 :: cint) - sint (130 :: cint)\<bar> \<and>
   sint (- 34 :: cint) \<le> sint (66 :: cint) \<and> sint (66 :: cint) \<le> sint (130 :: cint) \<and>
   int_ok (sint (- 34 :: cint) - sint (130 :: cint)) \<and>
   output_ms \<lparr>enabled = True, max_falling = - 10, max_rising = 100, period = 0,
       prev_time = 0, value = 130, target = - 34\<rparr> 7 =
     Some (120, \<lparr>enabled = True, max_falling = - 10, max_rising = 100, period = 0,
       prev_time = 7, value = 120, target = - 34\<rparr>) \<and>
   \<bar>sint (120 :: cint) - sint (- 34 :: cint)\<bar> \<le> \<bar>sint (130 :: cint) - sint (- 34 :: cint)\<bar> \<and>
   sint (- 34 :: cint) \<le> sint (120 :: cint) \<and> sint (120 :: cint) \<le> sint (130 :: cint)"
proof -
  let ?up = "\<lparr>enabled = True, max_falling = - 10, max_rising = 100, period = 0,
       prev_time = 0, value = - 34, target = 130 :: cint\<rparr>"
  let ?up' = "\<lparr>enabled = True, max_falling = - 10, max_rising = 100, period = 0,
       prev_time = 7, value = 66, target = 130 :: cint\<rparr>"
  let ?down = "\<lparr>enabled = True, max_falling = - 10, max_rising = 100, period = 0,
       prev_time = 0, value = 130, target = - 34 :: cint\<rparr>"
  let ?down' = "\<lparr>enabled = True, max_falling = - 10, max_rising = 100, period = 0,
       prev_time = 7, value = 120, target = - 34 :: cint\<rparr>"
  have up: "output_ms ?up 7 = Some (66, ?up')" and down: "output_ms ?down 7 = Some (120, ?down')"
    by (simp_all add: output_ms_def update_value_def arith_defs)
  have lim: "sint (max_falling ?up) \<le> 0" "0 \<le> sint (max_rising ?up)"
    "sint (max_falling ?down) \<le> 0" "0 \<le> sint (max_rising ?down)"
    by simp_all
  have ok: "int_ok (sint (target ?up) - sint (value ?up))"
    "int_ok (sint (target ?down) - sint (value ?down))"
    by (simp_all add: int_ok_def)
  have le: "sint (value ?up) \<le> sint (target ?up)" "sint (target ?down) \<le> sint (value ?down)"
    by simp_all
  from no_overshoot [OF lim(1,2), of 7] up le(1)
  have 1: "\<bar>sint (value ?up') - sint (target ?up)\<bar> \<le> \<bar>sint (value ?up) - sint (target ?up)\<bar> \<and>
      sint (value ?up) \<le> sint (value ?up') \<and> sint (value ?up') \<le> sint (target ?up)"
    by blast
  from no_overshoot [OF lim(3,4), of 7] down le(2)
  have 2: "\<bar>sint (value ?down') - sint (target ?down)\<bar> \<le> \<bar>sint (value ?down) - sint (target ?down)\<bar> \<and>
      sint (target ?down) \<le> sint (value ?down') \<and> sint (value ?down') \<le> sint (value ?down)"
    by blast
  from 1 2 up down ok lim show ?thesis by simp
qed

text \<open>
  Claim C4. When \<open>enabled\<close> is false, a call to either limiter at any timestamp sets the
  value to the target and returns it, whatever the period, the last update time and the
  limits are: nothing else of the state changes.
\<close>

theorem bypass_when_disabled:
  assumes "\<not> enabled s"
  shows "output_ms s ms = Some (target s, s\<lparr>value := target s\<rparr>) \<and>
         abs_output_ms s ms = Some (target s, s\<lparr>value := target s\<rparr>)"
  using assms by (simp add: output_ms_disabled abs_output_ms_disabled)

theorem bypass_when_disabled_witness:
  "\<not> enabled \<lparr>enabled = False, max_falling = - 10, max_rising = 10, period = 100,
       prev_time = 5000, value = 0, target = 120\<rparr> \<and>
   output_ms \<lparr>enabled = False, max_falling = - 10, max_rising = 10, period = 100,
       prev_time = 5000, value = 0, target = 120\<rparr> 5001 =
     Some (120, \<lparr>enabled = False, max_falling = - 10, max_rising = 10, period = 100,
       prev_time = 5000, value = 120, target = 120\<rparr>) \<and>
   abs_output_ms \<lparr>enabled = False, max_falling = - 10, max_rising = 10, period = 100,
       prev_time = 5000, value = 0, target = 120\<rparr> 5001 =
     Some (120, \<lparr>enabled = False, max_falling = - 10, max_rising = 10, period = 100,
       prev_time = 5000, value = 120, target = 120\<rparr>)"
  using bypass_when_disabled [of "\<lparr>enabled = False, max_falling = - 10, max_rising = 10,
       period = 100, prev_time = 5000, value = 0, target = 120\<rparr>" 5001]
  by simp

text \<open>
  Claim C5. When either limiter is enabled, its period is nonzero and the elapsed time
  \<open>ms - prev_time\<close> (unsigned, wrapping) is less than the period, a call returns the
  unchanged value and leaves the value unchanged; of the state only the last update
  time changes, and only when it still was the sentinel \<open>0\<close>.
\<close>

theorem period_gating:
  assumes "enabled s" "period s \<noteq> 0" "ms - prev_time s < ucast (period s)"
  shows "output_ms s ms =
           Some (value s, s\<lparr>prev_time := (if prev_time s = 0 then ms else prev_time s)\<rparr>) \<and>
         abs_output_ms s ms =
           Some (value s, s\<lparr>prev_time := (if prev_time s = 0 then ms else prev_time s)\<rparr>)"
  using assms(1) not_fires_gated [OF assms(3)]
  by (simp add: output_ms_gated abs_output_ms_gated)

theorem period_gating_witness:
  "enabled \<lparr>enabled = True, max_falling = - 10, max_rising = 10, period = 100,
       prev_time = 5000, value = 0, target = 120\<rparr> \<and>
   period \<lparr>enabled = True, max_falling = - 10, max_rising = 10, period = 100,
       prev_time = 5000, value = 0, target = 120\<rparr> \<noteq> 0 \<and>
   (5099 :: culong) - 5000 < ucast (100 :: cuint) \<and>
   output_ms \<lparr>enabled = True, max_falling = - 10, max_rising = 10, period = 100,
       prev_time = 5000, value = 0, target = 120\<rparr> 5099 =
     Some (0, \<lparr>enabled = True, max_falling = - 10, max_rising = 10, period = 100,
       prev_time = 5000, value = 0, target = 120\<rparr>) \<and>
   abs_output_ms \<lparr>enabled = True, max_falling = - 10, max_rising = 10, period = 100,
       prev_time = 5000, value = 0, target = 120\<rparr> 5099 =
     Some (0, \<lparr>enabled = True, max_falling = - 10, max_rising = 10, period = 100,
       prev_time = 5000, value = 0, target = 120\<rparr>)"
  using period_gating [of "\<lparr>enabled = True, max_falling = - 10, max_rising = 10,
       period = 100, prev_time = 5000, value = 0, target = 120\<rparr>" 5099]
  by simp

text \<open>
  Claim C6. When either limiter is enabled and its last update time is still the
  sentinel \<open>0\<close>, a call at \<open>ms\<close> records \<open>ms\<close> as the last update time; with a nonzero
  period it does not move the value, with period \<open>0\<close> the update of the value happens
  on this same call. A call at timestamp \<open>0\<close> therefore leaves the sentinel in place:
  with a nonzero period it leaves the whole state as it was, so the next call is a first
  call again.
\<close>

theorem first_call_initialization:
  assumes "enabled s" "prev_time s = 0"
  shows "(period s \<noteq> 0 \<longrightarrow>
            output_ms s ms = Some (value s, s\<lparr>prev_time := ms\<rparr>) \<and>
            abs_output_ms s ms = Some (value s, s\<lparr>prev_time := ms\<rparr>)) \<and>
         (period s = 0 \<longrightarrow>
            output_ms s ms = map_option (\<lambda>s'. (value s', s')) (update_value (s\<lparr>prev_time := ms\<rparr>)) \<and>
            abs_output_ms s ms = map_option (\<lambda>s'. (value s', s')) (abs_update_value (s\<lparr>prev_time := ms\<rparr>))) \<and>
         (\<forall>r s'. output_ms s ms = Some (r, s') \<or> abs_output_ms s ms = Some (r, s') \<longrightarrow>
            prev_time s' = ms) \<and>
         (period s \<noteq> 0 \<longrightarrow> output_ms s 0 = Some (value s, s) \<and> abs_output_ms s 0 = Some (value s, s))"
proof (intro conjI impI allI)
  assume "period s \<noteq> 0"
  then have nf: "\<not> fires s ms" "\<not> fires s 0" using assms(2) by (simp_all add: fires_sentinel)
  from nf(1) assms show "output_ms s ms = Some (value s, s\<lparr>prev_time := ms\<rparr>)"
    by (simp add: output_ms_gated)
  from nf(1) assms show "abs_output_ms s ms = Some (value s, s\<lparr>prev_time := ms\<rparr>)"
    by (simp add: abs_output_ms_gated)
  have "s\<lparr>prev_time := 0\<rparr> = s" using assms(2) by simp
  with nf(2) assms show "output_ms s 0 = Some (value s, s)" "abs_output_ms s 0 = Some (value s, s)"
    by (simp_all add: output_ms_gated abs_output_ms_gated)
next
  assume "period s = 0"
  then have "fires s ms" by (simp add: fires_def)
  with assms(1) show
    "output_ms s ms = map_option (\<lambda>s'. (value s', s')) (update_value (s\<lparr>prev_time := ms\<rparr>))"
    "abs_output_ms s ms = map_option (\<lambda>s'. (value s', s')) (abs_update_value (s\<lparr>prev_time := ms\<rparr>))"
    by (simp_all add: output_ms_enabled abs_output_ms_enabled ret_def)
next
  fix r s'
  assume "output_ms s ms = Some (r, s') \<or> abs_output_ms s ms = Some (r, s')"
  then show "prev_time s' = ms"
    using assms
    by (auto simp: output_ms_enabled abs_output_ms_enabled ret_def
        dest: update_value_prev_time abs_update_value_prev_time split: if_splits)
qed

theorem first_call_initialization_witness:
  "enabled \<lparr>enabled = True, max_falling = - 10, max_rising = 10, period = 100,
       prev_time = 0, value = 0, target = 50\<rparr> \<and>
   prev_time \<lparr>enabled = True, max_falling = - 10, max_rising = 10, period = 100,
       prev_time = 0, value = 0, target = 50\<rparr> = 0 \<and>
   (100 :: cuint) \<noteq> 0 \<and>
   output_ms \<lparr>enabled = True, max_falling = - 10, max_rising = 10, period = 100,
       prev_time = 0, value = 0, target = 50\<rparr> 1000 =
     Some (0, \<lparr>enabled = True, max_falling = - 10, max_rising = 10, period = 100,
       prev_time = 1000, value = 0, target = 50\<rparr>) \<and>
   output_ms \<lparr>enabled = True, max_falling = - 10, max_rising = 10, period = 100,
       prev_time = 0, value = 0, target = 50\<rparr> 0 =
     Some (0, \<lparr>enabled = True, max_falling = - 10, max_rising = 10, period = 100,
       prev_time = 0, value = 0, target = 50\<rparr>) \<and>
   output_ms \<lparr>enabled = True, max_falling = - 10, max_rising = 10, period = 0,
       prev_time = 0, value = 0, target = 50\<rparr> 1000 =
     Some (10, \<lparr>enabled = True, max_falling = - 10, max_rising = 10, period = 0,
       prev_time = 1000, value = 10, target = 50\<rparr>) \<and>
   abs_output_ms \<lparr>enabled = True, max_falling = 10, max_rising = 10, period = 0,
       prev_time = 0, value = 0, target = 50\<rparr> 1000 =
     Some (10, \<lparr>enabled = True, max_falling = 10, max_rising = 10, period = 0,
       prev_time = 1000, value = 10, target = 50\<rparr>)"
  using first_call_initialization [of "\<lparr>enabled = True, max_falling = - 10, max_rising = 10,
       period = 100, prev_time = 0, value = 0, target = 50\<rparr>" 1000]
    first_call_initialization [of "\<lparr>enabled = True, max_falling = - 10, max_rising = 10,
       period = 0, prev_time = 0, value = 0, target = 50\<rparr>" 1000]
    first_call_initialization [of "\<lparr>enabled = True, max_falling = 10, max_rising = 10,
       period = 0, prev_time = 0, value = 0, target = 50\<rparr>" 1000]
  by (simp add: update_value_def abs_defs arith_defs)

text \<open>
  Claim C7, as amended. The claim is for every pair of arguments. At the most negative
  \<^verbatim>\<open>int\<close>, \<open>-32768\<close>, it fails: the absolute value \<open>32768\<close> is not an \<^verbatim>\<open>int\<close>, the
  negation in \<^verbatim>\<open>abs\<close> overflows and the setter has no defined result (the counterexample
  below). For every other pair of arguments the setters normalize the signs:
  \<open>ChangeLimiter\<close> stores \<open>maxFalling = -|a| \<le> 0\<close> and \<open>maxRising = |b| \<ge> 0\<close>,
  \<open>AbsChangeLimiter\<close> stores \<open>maxFalling = |a| \<ge> 0\<close> and \<open>maxRising = |b| \<ge> 0\<close>; with the
  arguments \<open>-5\<close> and \<open>-20\<close> they store \<open>(-5, 20)\<close> and \<open>(5, 20)\<close>. A setter returns for
  every pair of arguments neither of which is \<open>-32768\<close>, and what is said of the stored
  limits holds of every call that returns.
\<close>

theorem set_limit_normalizes_signs:
  "(sint a \<noteq> - 32768 \<and> sint b \<noteq> - 32768 \<longrightarrow>
      (\<exists>s'. set_limit a b s = Some s') \<and> (\<exists>s'. abs_set_limit a b s = Some s')) \<and>
   (\<forall>s'. set_limit a b s = Some s' \<longrightarrow>
      sint (max_falling s') = - \<bar>sint a\<bar> \<and> sint (max_falling s') \<le> 0 \<and>
      sint (max_rising s') = \<bar>sint b\<bar> \<and> 0 \<le> sint (max_rising s')) \<and>
   (\<forall>s'. abs_set_limit a b s = Some s' \<longrightarrow>
      sint (max_falling s') = \<bar>sint a\<bar> \<and> 0 \<le> sint (max_falling s') \<and>
      sint (max_rising s') = \<bar>sint b\<bar> \<and> 0 \<le> sint (max_rising s')) \<and>
   set_limit (- 5) (- 20) s = Some (s\<lparr>max_falling := - 5, max_rising := 20\<rparr>) \<and>
   abs_set_limit (- 5) (- 20) s = Some (s\<lparr>max_falling := 5, max_rising := 20\<rparr>)"
proof (intro conjI impI allI)
  assume "sint a \<noteq> - 32768 \<and> sint b \<noteq> - 32768"
  then show "\<exists>s'. set_limit a b s = Some s'" "\<exists>s'. abs_set_limit a b s = Some s'"
    by (simp_all add: set_limit_SomeI abs_set_limit_SomeI)
next
  fix s' assume "set_limit a b s = Some s'"
  from set_limit_SomeD(1,2) [OF this]
  show "sint (max_falling s') = - \<bar>sint a\<bar>" "sint (max_falling s') \<le> 0"
    "sint (max_rising s') = \<bar>sint b\<bar>" "0 \<le> sint (max_rising s')" by simp_all
next
  fix s' assume "abs_set_limit a b s = Some s'"
  from abs_set_limit_SomeD(1,2) [OF this]
  show "sint (max_falling s') = \<bar>sint a\<bar>" "0 \<le> sint (max_falling s')"
    "sint (max_rising s') = \<bar>sint b\<bar>" "0 \<le> sint (max_rising s')" by simp_all
next
  show "set_limit (- 5) (- 20) s = Some (s\<lparr>max_falling := - 5, max_rising := 20\<rparr>)"
    by (simp add: set_limit_def arith_defs)
  show "abs_set_limit (- 5) (- 20) s = Some (s\<lparr>max_falling := 5, max_rising := 20\<rparr>)"
    by (simp add: abs_set_limit_def arith_defs)
qed

theorem set_limit_normalizes_signs_witness:
  "sint (7 :: cint) \<noteq> - 32768 \<and> sint (- 3 :: cint) \<noteq> - 32768 \<and>
   set_limit 7 (- 3) \<lparr>enabled = True, max_falling = 0, max_rising = 0, period = 0,
       prev_time = 0, value = 0, target = 0\<rparr> =
     Some \<lparr>enabled = True, max_falling = - 7, max_rising = 3, period = 0,
       prev_time = 0, value = 0, target = 0\<rparr> \<and>
   abs_set_limit 7 (- 3) \<lparr>enabled = True, max_falling = 0, max_rising = 0, period = 0,
       prev_time = 0, value = 0, target = 0\<rparr> =
     Some \<lparr>enabled = True, max_falling = 7, max_rising = 3, period = 0,
       prev_time = 0, value = 0, target = 0\<rparr>"
  using set_limit_normalizes_signs [of 7 "- 3" "\<lparr>enabled = True, max_falling = 0,
       max_rising = 0, period = 0, prev_time = 0, value = 0, target = 0\<rparr>"]
  by (simp add: set_limit_def abs_set_limit_def arith_defs)

theorem set_limit_most_negative_counterexample:
  "sint (- 32768 :: cint) = - 32768 \<and>
   \<bar>sint (- 32768 :: cint)\<bar> = 32768 \<and> \<not> int_ok 32768 \<and>
   abs_c (- 32768) = None \<and>
   set_limit 5 (- 32768) \<lparr>enabled = True, max_falling = 0, max_rising = 0, period = 0,
       prev_time = 0, value = 0, target = 0\<rparr> = None \<and>
   set_limit (- 32768) 20 \<lparr>enabled = True, max_falling = 0, max_rising = 0, period = 0,
       prev_time = 0, value = 0, target = 0\<rparr> = None \<and>
   abs_set_limit 5 (- 32768) \<lparr>enabled = True, max_falling = 0, max_rising = 0, period = 0,
       prev_time = 0, value = 0, target = 0\<rparr> = None \<and>
   abs_set_limit (- 32768) 20 \<lparr>enabled = True, max_falling = 0, max_rising = 0, period = 0,
       prev_time = 0, value = 0, target = 0\<rparr> = None"
  by (simp add: set_limit_def abs_set_limit_def arith_defs)

text \<open>
  Claim C8. In the branch of \<open>AbsChangeLimiter\<close>'s update where value and target do not
  have opposite signs, the direction \<open>sign value OR sign target\<close> is the sign of the
  value when the value is nonzero, else the sign of the target when the target is
  nonzero, and \<open>0\<close> when both are zero; it is one of \<open>1\<close>, \<open>0\<close> and \<open>-1\<close>.
\<close>

theorem dir_is_the_nonzero_sign:
  assumes "\<not> differentSigns s"
  shows "(value s \<noteq> 0 \<longrightarrow> dir_of s = sign (value s)) \<and>
         (value s = 0 \<and> target s \<noteq> 0 \<longrightarrow> dir_of s = sign (target s)) \<and>
         (value s = 0 \<and> target s = 0 \<longrightarrow> dir_of s = 0) \<and>
         (dir_of s = 1 \<or> dir_of s = 0 \<or> dir_of s = - 1)"
  using assms
  by (auto simp: differentSigns_def dir_of_def sign_def sint_0_iff [symmetric] split: if_splits)

theorem dir_is_the_nonzero_sign_witness:
  "\<not> differentSigns \<lparr>enabled = True, max_falling = 10, max_rising = 100, period = 0,
       prev_time = 0, value = - 34, target = - 130\<rparr> \<and>
   dir_of \<lparr>enabled = True, max_falling = 10, max_rising = 100, period = 0,
       prev_time = 0, value = - 34, target = - 130\<rparr> = - 1 \<and>
   sign (- 34) = - 1 \<and>
   \<not> differentSigns \<lparr>enabled = True, max_falling = 10, max_rising = 100, period = 0,
       prev_time = 0, value = 0, target = 130\<rparr> \<and>
   dir_of \<lparr>enabled = True, max_falling = 10, max_rising = 100, period = 0,
       prev_time = 0, value = 0, target = 130\<rparr> = 1 \<and>
   sign 130 = 1 \<and>
   \<not> differentSigns \<lparr>enabled = True, max_falling = 10, max_rising = 100, period = 0,
       prev_time = 0, value = 0, target = 0\<rparr> \<and>
   dir_of \<lparr>enabled = True, max_falling = 10, max_rising = 100, period = 0,
       prev_time = 0, value = 0, target = 0\<rparr> = 0"
  using dir_is_the_nonzero_sign [of "\<lparr>enabled = True, max_falling = 10, max_rising = 100,
       period = 0, prev_time = 0, value = - 34, target = - 130\<rparr>"]
    dir_is_the_nonzero_sign [of "\<lparr>enabled = True, max_falling = 10, max_rising = 100,
       period = 0, prev_time = 0, value = 0, target = 130\<rparr>"]
    dir_is_the_nonzero_sign [of "\<lparr>enabled = True, max_falling = 10, max_rising = 100,
       period = 0, prev_time = 0, value = 0, target = 0\<rparr>"]
  by (simp add: differentSigns_def sign_def)

text \<open>
  Claim C9, as amended. The class has no constructor and no member initialisers, so the
  members of an instance on which \<^verbatim>\<open>begin()\<close> was never called are whatever its storage
  holds, and a call does not behave as if they were zero: with \<open>value = 3\<close> and
  \<open>target = 7\<close> in the members, a disabled instance returns \<open>7\<close>, and an enabled one with
  limits \<open>0\<close> returns \<open>3\<close> and has not reached its target (the counterexample below).
  What holds is the claim for an instance whose members are all zero, as those of an
  object of static storage duration are: \<open>enabled\<close> false, limits, period, last update
  time, value and target \<open>0\<close>. A call to either limiter at any timestamp then returns
  \<open>0\<close> and leaves the state as it is, with \<open>value = target = 0\<close>.
\<close>

theorem zero_initialized_instance:
  assumes "\<not> enabled s" "max_falling s = 0" "max_rising s = 0" "period s = 0"
    and "prev_time s = 0" "value s = 0" "target s = 0"
  shows "output_ms s ms = Some (0, s) \<and> abs_output_ms s ms = Some (0, s) \<and>
         target_reached s"
  using assms by (simp add: output_ms_disabled abs_output_ms_disabled target_reached_def)

theorem zero_initialized_instance_witness:
  "\<not> enabled \<lparr>enabled = False, max_falling = 0, max_rising = 0, period = 0,
       prev_time = 0, value = 0, target = 0\<rparr> \<and>
   output_ms \<lparr>enabled = False, max_falling = 0, max_rising = 0, period = 0,
       prev_time = 0, value = 0, target = 0\<rparr> 1234 =
     Some (0, \<lparr>enabled = False, max_falling = 0, max_rising = 0, period = 0,
       prev_time = 0, value = 0, target = 0\<rparr>) \<and>
   abs_output_ms \<lparr>enabled = False, max_falling = 0, max_rising = 0, period = 0,
       prev_time = 0, value = 0, target = 0\<rparr> 1234 =
     Some (0, \<lparr>enabled = False, max_falling = 0, max_rising = 0, period = 0,
       prev_time = 0, value = 0, target = 0\<rparr>) \<and>
   target_reached \<lparr>enabled = False, max_falling = 0, max_rising = 0, period = 0,
       prev_time = 0, value = 0, target = 0\<rparr>"
  using zero_initialized_instance [of "\<lparr>enabled = False, max_falling = 0, max_rising = 0,
       period = 0, prev_time = 0, value = 0, target = 0\<rparr>" 1234]
  by simp

theorem never_initialized_instance_counterexample:
  "output_ms \<lparr>enabled = False, max_falling = 0, max_rising = 0, period = 0,
       prev_time = 0, value = 3, target = 7\<rparr> 1234 =
     Some (7, \<lparr>enabled = False, max_falling = 0, max_rising = 0, period = 0,
       prev_time = 0, value = 7, target = 7\<rparr>) \<and>
   output_ms \<lparr>enabled = True, max_falling = 0, max_rising = 0, period = 0,
       prev_time = 0, value = 3, target = 7\<rparr> 1234 =
     Some (3, \<lparr>enabled = True, max_falling = 0, max_rising = 0, period = 0,
       prev_time = 1234, value = 3, target = 7\<rparr>) \<and>
   \<not> target_reached \<lparr>enabled = True, max_falling = 0, max_rising = 0, period = 0,
       prev_time = 1234, value = 3, target = 7\<rparr> \<and>
   abs_output_ms \<lparr>enabled = True, max_falling = 0, max_rising = 0, period = 0,
       prev_time = 0, value = 3, target = 7\<rparr> 1234 =
     Some (3, \<lparr>enabled = True, max_falling = 0, max_rising = 0, period = 0,
       prev_time = 1234, value = 3, target = 7\<rparr>)"
  by (simp add: output_ms_def abs_output_ms_def update_value_def target_reached_def
      abs_defs arith_defs)



end
